theory Spec2Isabelle
  imports Main "HOL-Library.Char_ord" "HOL-Library.List_Lexorder" "HOL-Library.Word"
    "HOL-Library.Multiset"
begin

section \<open>Data model\<close>

text \<open>
  Go's \<^verbatim>\<open>time.Time\<close>, as far as the program reads it: the civil fields that
  \<^verbatim>\<open>Format\<close> prints, and the monotonic clock reading (in nanoseconds) that
  \<^verbatim>\<open>Sub\<close> uses when both operands come from \<^verbatim>\<open>time.Now()\<close>.
\<close>

record Time =
  Year :: nat
  Month :: nat
  Day :: nat
  Hour :: nat
  Minute :: nat
  Second :: nat
  Nanosecond :: nat
  mono :: int

text \<open>
  \<^verbatim>\<open>storage.Frame\<close> (the storage package's part of \<^verbatim>\<open>src/pkg/server/signaling.go\<close>,
  lines 209 to 217). \<^verbatim>\<open>Index\<close> is an \<^verbatim>\<open>int64\<close>; the store only compares indices and
  never computes with them, so it is an \<open>int\<close> here. \<^verbatim>\<open>Data\<close> is a byte slice.
\<close>

record Frame =
  SessionID :: string
  Index :: int
  Data :: "8 word list"
  Timestamp :: Time
  MediaType :: string
  Codec :: string
  KeyFrame :: bool

text \<open>
  The errors of the two backends are \<^verbatim>\<open>fmt.Errorf\<close> values; one constructor per
  message of the source, carrying the message's arguments.
\<close>

datatype redis_error = ConnectionError | WrongType

datatype storage_error =
    SessionNotFound string
  | FrameNotFound string int
  | MarshalFailed
  | StoreFrameFailed redis_error
  | CheckSessionFailed redis_error
  | GetFramesFailed redis_error
  | UnmarshalFailed
  | ListSessionsFailed redis_error
  | DeleteSessionFailed redis_error

fun NotFound :: "storage_error \<Rightarrow> bool" where
  "NotFound (SessionNotFound s) = True"
| "NotFound (FrameNotFound s i) = True"
| "NotFound e = False"

section \<open>What Go and Redis leave unspecified\<close>

text \<open>
  Three behaviours of the platform are not fixed by the language or by the server, and
  are parameters of the model:
  \<^item> \<^verbatim>\<open>for k := range m\<close> visits the keys of a Go map in an unspecified order:
    \<open>range_strings\<close> and \<open>range_indices\<close> give, for a set of keys, the order of the visit;
  \<^item> \<^verbatim>\<open>SMEMBERS\<close> replies with the members of a set in an unspecified order:
    \<open>smembers_order\<close>;
  \<^item> \<^verbatim>\<open>sort.Slice\<close> is not a stable sort: \<open>sort_long\<close> is what it returns for a slice
    of frames, compared by \<^verbatim>\<open>Index\<close>, that is too long for its insertion sort.
\<close>

record platform =
  range_strings :: "string set \<Rightarrow> string list"
  range_indices :: "int set \<Rightarrow> int list"
  smembers_order :: "string set \<Rightarrow> string list"
  sort_long :: "Frame list \<Rightarrow> Frame list"

text \<open>
  What is known of them: a visit meets keys of the set only, each once, and all of them
  (a Go map and a Redis set are finite); \<^verbatim>\<open>sort.Slice\<close> returns the frames it was given,
  in ascending order of index, equal indices in any order.
\<close>

definition visits :: "('k set \<Rightarrow> 'k list) \<Rightarrow> bool" where
  "visits v = (\<forall>A. distinct (v A) \<and> set (v A) \<subseteq> A \<and> (finite A \<longrightarrow> set (v A) = A))"

definition platform_ok :: "platform \<Rightarrow> bool" where
  "platform_ok env =
     (visits (range_strings env) \<and> visits (range_indices env) \<and> visits (smembers_order env) \<and>
      (\<forall>xs. sorted (map Index (sort_long env xs)) \<and> mset (sort_long env xs) = mset xs))"

text \<open>
  \<^verbatim>\<open>sort.Slice(frames, func(i, j int) bool { return frames[i].Index < frames[j].Index })\<close>.
  A short slice is sorted by insertion, which keeps frames of equal index in the order
  they had: \<open>sort_key Index\<close> is that list. The bound is 6 here, under which every
  release of Go sorts by insertion alone (the bound of Go 1.19 and later is 12); a longer
  slice is left to \<open>sort_long\<close>.
\<close>

definition sort_Slice :: "platform \<Rightarrow> Frame list \<Rightarrow> Frame list" where
  "sort_Slice env xs = (if length xs \<le> 6 then sort_key Index xs else sort_long env xs)"

section \<open>MemoryStorage (\<^verbatim>\<open>src/pkg/storage/mem.go\<close>)\<close>

text \<open>
  The two maps of the struct. \<^verbatim>\<open>sessions\<close> is a \<^verbatim>\<open>map[string]struct{}\<close>, that is a set
  of keys. The mutex is not modelled: operations are taken one at a time.
\<close>

record MemoryStorage =
  frames :: "string \<rightharpoonup> (int \<rightharpoonup> Frame)"
  sessions :: "string set"

definition NewMemoryStorage :: MemoryStorage where
  "NewMemoryStorage = \<lparr>frames = Map.empty, sessions = {}\<rparr>"

text \<open>
  The values a \<^verbatim>\<open>range\<close> over a map collects, in the order \<open>visit\<close> meets the keys.
\<close>

definition range_values :: "('k set \<Rightarrow> 'k list) \<Rightarrow> ('k \<rightharpoonup> 'v) \<Rightarrow> 'v list" where
  "range_values visit m = List.map_filter m (visit (dom m))"

definition MemoryStorage_PutFrame ::
  "MemoryStorage \<Rightarrow> Frame \<Rightarrow> storage_error option \<times> MemoryStorage" where
  "MemoryStorage_PutFrame s frame =
     (let s1 = (if frames s (SessionID frame) = None
                then s\<lparr>frames := (frames s)(SessionID frame \<mapsto> Map.empty),
                       sessions := insert (SessionID frame) (sessions s)\<rparr>
                else s);
          sessionFrames = (case frames s1 (SessionID frame) of Some m \<Rightarrow> m | None \<Rightarrow> Map.empty)
      in (None, s1\<lparr>frames := (frames s1)(SessionID frame \<mapsto> sessionFrames(Index frame \<mapsto> frame))\<rparr>))"

definition MemoryStorage_GetFrame ::
  "MemoryStorage \<Rightarrow> string \<Rightarrow> int \<Rightarrow> storage_error + Frame" where
  "MemoryStorage_GetFrame s sessionID frameIndex =
     (case frames s sessionID of
        None \<Rightarrow> Inl (SessionNotFound sessionID)
      | Some sessionFrames \<Rightarrow>
          (case sessionFrames frameIndex of
             None \<Rightarrow> Inl (FrameNotFound sessionID frameIndex)
           | Some frame \<Rightarrow> Inr frame))"

definition MemoryStorage_ListFrames ::
  "platform \<Rightarrow> MemoryStorage \<Rightarrow> string \<Rightarrow> storage_error + Frame list" where
  "MemoryStorage_ListFrames env s sessionID =
     (case frames s sessionID of
        None \<Rightarrow> Inl (SessionNotFound sessionID)
      | Some sessionFrames \<Rightarrow>
          Inr (sort_Slice env (range_values (range_indices env) sessionFrames)))"

text \<open>
  \<^verbatim>\<open>sort.Strings\<close> orders strings bytewise; equal strings cannot be told apart, so the
  sorted list is \<open>sort\<close> of the list whatever the algorithm.
\<close>

definition MemoryStorage_ListSessions ::
  "platform \<Rightarrow> MemoryStorage \<Rightarrow> storage_error + string list" where
  "MemoryStorage_ListSessions env s = Inr (sort (range_strings env (sessions s)))"

definition MemoryStorage_DeleteSession ::
  "MemoryStorage \<Rightarrow> string \<Rightarrow> storage_error option \<times> MemoryStorage" where
  "MemoryStorage_DeleteSession s sessionID =
     (if frames s sessionID = None then (Some (SessionNotFound sessionID), s)
      else (None, s\<lparr>frames := (frames s)(sessionID := None),
                    sessions := sessions s - {sessionID}\<rparr>))"

definition MemoryStorage_Close :: "MemoryStorage \<Rightarrow> storage_error option \<times> MemoryStorage" where
  "MemoryStorage_Close s = (None, s)"

section \<open>RedisStorage (\<^verbatim>\<open>src/unnamed/part_002\<close>)\<close>

subsection \<open>The Redis server and the JSON library\<close>

text \<open>
  The backend of RedisStorage is a Redis server reached through the go-redis client.
  Its state is the key space: a key holds a list or a set. \<open>online\<close> says whether the
  server answers; when it does not, every command fails with a connection error.
  The commands below are the ones the source issues, with Redis' semantics: a command on
  a key of the other kind fails with WRONGTYPE, \<^verbatim>\<open>RPUSH\<close> and \<^verbatim>\<open>SADD\<close> create a missing
  key, \<^verbatim>\<open>SREM\<close> of the last member removes the key, and a missing key reads as an empty
  list or set.
\<close>

datatype 'j rvalue = RList "'j list" | RSet "string set"

record 'j redis =
  kv :: "string \<rightharpoonup> 'j rvalue"
  online :: bool

datatype 'j cmd = RPush string 'j | SAdd string string | Del string | SRem string string

fun apply_cmd :: "'j cmd \<Rightarrow> (string \<rightharpoonup> 'j rvalue) \<Rightarrow> redis_error option \<times> (string \<rightharpoonup> 'j rvalue)" where
  "apply_cmd (RPush k v) m =
     (case m k of
        None \<Rightarrow> (None, m(k \<mapsto> RList [v]))
      | Some (RList xs) \<Rightarrow> (None, m(k \<mapsto> RList (xs @ [v])))
      | Some (RSet S) \<Rightarrow> (Some WrongType, m))"
| "apply_cmd (SAdd k x) m =
     (case m k of
        None \<Rightarrow> (None, m(k \<mapsto> RSet {x}))
      | Some (RSet S) \<Rightarrow> (None, m(k \<mapsto> RSet (insert x S)))
      | Some (RList xs) \<Rightarrow> (Some WrongType, m))"
| "apply_cmd (Del k) m = (None, m(k := None))"
| "apply_cmd (SRem k x) m =
     (case m k of
        None \<Rightarrow> (None, m)
      | Some (RSet S) \<Rightarrow> (None, if S - {x} = {} then m(k := None) else m(k \<mapsto> RSet (S - {x})))
      | Some (RList xs) \<Rightarrow> (Some WrongType, m))"

text \<open>
  A go-redis \<^verbatim>\<open>Pipeline\<close> queues commands; \<^verbatim>\<open>Exec\<close> sends them together, the server
  runs every one of them in order, and \<^verbatim>\<open>Exec\<close> returns the first error among the replies.
\<close>

fun run_cmds :: "'j cmd list \<Rightarrow> (string \<rightharpoonup> 'j rvalue) \<Rightarrow> redis_error option \<times> (string \<rightharpoonup> 'j rvalue)" where
  "run_cmds [] m = (None, m)"
| "run_cmds (c # cs) m =
     (case apply_cmd c m of
        (e, m1) \<Rightarrow> (case run_cmds cs m1 of
                      (e', m2) \<Rightarrow> ((case e of Some x \<Rightarrow> Some x | None \<Rightarrow> e'), m2)))"

definition Exec :: "'j cmd list \<Rightarrow> 'j redis \<Rightarrow> redis_error option \<times> 'j redis" where
  "Exec cmds r =
     (if \<not> online r then (Some ConnectionError, r)
      else (case run_cmds cmds (kv r) of (e, m) \<Rightarrow> (e, r\<lparr>kv := m\<rparr>)))"

definition SIsMember :: "'j redis \<Rightarrow> string \<Rightarrow> string \<Rightarrow> redis_error + bool" where
  "SIsMember r k x =
     (if \<not> online r then Inl ConnectionError
      else (case kv r k of
              None \<Rightarrow> Inr False
            | Some (RSet S) \<Rightarrow> Inr (x \<in> S)
            | Some (RList xs) \<Rightarrow> Inl WrongType))"

text \<open>\<^verbatim>\<open>LRange(key, 0, -1)\<close>: the whole list.\<close>

definition LRange_all :: "'j redis \<Rightarrow> string \<Rightarrow> redis_error + 'j list" where
  "LRange_all r k =
     (if \<not> online r then Inl ConnectionError
      else (case kv r k of
              None \<Rightarrow> Inr []
            | Some (RList xs) \<Rightarrow> Inr xs
            | Some (RSet S) \<Rightarrow> Inl WrongType))"

text \<open>\<^verbatim>\<open>SMEMBERS\<close> replies with the members in the order \<open>smembers_order\<close> gives.\<close>

definition SMembers :: "platform \<Rightarrow> 'j redis \<Rightarrow> string \<Rightarrow> redis_error + string list" where
  "SMembers env r k =
     (if \<not> online r then Inl ConnectionError
      else (case kv r k of
              None \<Rightarrow> Inr []
            | Some (RSet S) \<Rightarrow> Inr (smembers_order env S)
            | Some (RList xs) \<Rightarrow> Inl WrongType))"

text \<open>
  \<^verbatim>\<open>encoding/json\<close> is a library: \<^verbatim>\<open>json.Marshal\<close> and \<^verbatim>\<open>json.Unmarshal\<close> on a
  \<^verbatim>\<open>Frame\<close> are parameters of the model, over a type \<open>'j\<close> of serialised frames. Both
  can fail. \<open>json_ok\<close> says that a frame read back is the frame written.
\<close>

record 'j json =
  Marshal :: "Frame \<Rightarrow> 'j option"
  Unmarshal :: "'j \<Rightarrow> Frame option"

definition json_ok :: "'j json \<Rightarrow> bool" where
  "json_ok js = (\<forall>f j. Marshal js f = Some j \<longrightarrow> Unmarshal js j = Some f)"

subsection \<open>The storage operations\<close>

record 'j RedisStorage =
  client :: "'j redis"
  prefix :: string

definition frameKey :: "'j RedisStorage \<Rightarrow> string \<Rightarrow> string" where
  "frameKey s sessionID = prefix s @ ''frames:'' @ sessionID"

definition sessionKey :: "'j RedisStorage \<Rightarrow> string" where
  "sessionKey s = prefix s @ ''active_sessions''"

definition RedisStorage_PutFrame ::
  "'j json \<Rightarrow> 'j RedisStorage \<Rightarrow> Frame \<Rightarrow> storage_error option \<times> 'j RedisStorage" where
  "RedisStorage_PutFrame js s frame =
     (case Marshal js frame of
        None \<Rightarrow> (Some MarshalFailed, s)
      | Some frameJSON \<Rightarrow>
          (case Exec [RPush (frameKey s (SessionID frame)) frameJSON,
                      SAdd (sessionKey s) (SessionID frame)] (client s) of
             (Some e, r) \<Rightarrow> (Some (StoreFrameFailed e), s\<lparr>client := r\<rparr>)
           | (None, r) \<Rightarrow> (None, s\<lparr>client := r\<rparr>)))"

text \<open>The scan of \<^verbatim>\<open>GetFrame\<close>: the first entry of the list with the index wins.\<close>

fun find_frame :: "'j json \<Rightarrow> 'j list \<Rightarrow> string \<Rightarrow> int \<Rightarrow> storage_error + Frame" where
  "find_frame js [] sessionID frameIndex = Inl (FrameNotFound sessionID frameIndex)"
| "find_frame js (frameJSON # rest) sessionID frameIndex =
     (case Unmarshal js frameJSON of
        None \<Rightarrow> Inl UnmarshalFailed
      | Some frame \<Rightarrow>
          (if Index frame = frameIndex then Inr frame
           else find_frame js rest sessionID frameIndex))"

definition RedisStorage_GetFrame ::
  "'j json \<Rightarrow> 'j RedisStorage \<Rightarrow> string \<Rightarrow> int \<Rightarrow> storage_error + Frame" where
  "RedisStorage_GetFrame js s sessionID frameIndex =
     (case SIsMember (client s) (sessionKey s) sessionID of
        Inl e \<Rightarrow> Inl (CheckSessionFailed e)
      | Inr exists \<Rightarrow>
          (if \<not> exists then Inl (SessionNotFound sessionID)
           else (case LRange_all (client s) (frameKey s sessionID) of
                   Inl e \<Rightarrow> Inl (GetFramesFailed e)
                 | Inr frameList \<Rightarrow> find_frame js frameList sessionID frameIndex)))"

text \<open>The deserialising loop of \<^verbatim>\<open>ListFrames\<close>: it stops at the first entry that fails.\<close>

fun decode_frames :: "'j json \<Rightarrow> 'j list \<Rightarrow> storage_error + Frame list" where
  "decode_frames js [] = Inr []"
| "decode_frames js (frameJSON # rest) =
     (case Unmarshal js frameJSON of
        None \<Rightarrow> Inl UnmarshalFailed
      | Some frame \<Rightarrow>
          (case decode_frames js rest of
             Inl e \<Rightarrow> Inl e
           | Inr fs \<Rightarrow> Inr (frame # fs)))"

definition RedisStorage_ListFrames ::
  "platform \<Rightarrow> 'j json \<Rightarrow> 'j RedisStorage \<Rightarrow> string \<Rightarrow> storage_error + Frame list" where
  "RedisStorage_ListFrames env js s sessionID =
     (case SIsMember (client s) (sessionKey s) sessionID of
        Inl e \<Rightarrow> Inl (CheckSessionFailed e)
      | Inr exists \<Rightarrow>
          (if \<not> exists then Inl (SessionNotFound sessionID)
           else (case LRange_all (client s) (frameKey s sessionID) of
                   Inl e \<Rightarrow> Inl (GetFramesFailed e)
                 | Inr frameList \<Rightarrow>
                     (case decode_frames js frameList of
                        Inl e \<Rightarrow> Inl e
                      | Inr fs \<Rightarrow> Inr (sort_Slice env fs)))))"

definition RedisStorage_ListSessions ::
  "platform \<Rightarrow> 'j RedisStorage \<Rightarrow> storage_error + string list" where
  "RedisStorage_ListSessions env s =
     (case SMembers env (client s) (sessionKey s) of
        Inl e \<Rightarrow> Inl (ListSessionsFailed e)
      | Inr ss \<Rightarrow> Inr (sort ss))"

definition RedisStorage_DeleteSession ::
  "'j RedisStorage \<Rightarrow> string \<Rightarrow> storage_error option \<times> 'j RedisStorage" where
  "RedisStorage_DeleteSession s sessionID =
     (case SIsMember (client s) (sessionKey s) sessionID of
        Inl e \<Rightarrow> (Some (CheckSessionFailed e), s)
      | Inr exists \<Rightarrow>
          (if \<not> exists then (Some (SessionNotFound sessionID), s)
           else (case Exec [Del (frameKey s sessionID), SRem (sessionKey s) sessionID] (client s) of
                   (Some e, r) \<Rightarrow> (Some (DeleteSessionFailed e), s\<lparr>client := r\<rparr>)
                 | (None, r) \<Rightarrow> (None, s\<lparr>client := r\<rparr>))))"

text \<open>
  The empty state of the backend: a storage whose server answers and holds no key (what
  \<^verbatim>\<open>NewRedisStorage\<close> returns on a fresh server), with key prefix \<open>p\<close>.
\<close>

definition emptyRedisStorage :: "string \<Rightarrow> 'j RedisStorage" where
  "emptyRedisStorage p = \<lparr>client = \<lparr>kv = Map.empty, online = True\<rparr>, prefix = p\<rparr>"

subsection \<open>Sequences of operations on either backend\<close>

datatype op =
    PutFrame Frame
  | GetFrame string int
  | ListFrames string
  | ListSessions
  | DeleteSession string

text \<open>What a caller observes of one operation: the error or the value returned.\<close>

datatype result =
    Done "storage_error option"
  | GotFrame "storage_error + Frame"
  | GotFrames "storage_error + Frame list"
  | GotSessions "storage_error + string list"

fun MemoryStorage_op :: "platform \<Rightarrow> op \<Rightarrow> MemoryStorage \<Rightarrow> result \<times> MemoryStorage" where
  "MemoryStorage_op env (PutFrame f) s =
     (case MemoryStorage_PutFrame s f of (e, s') \<Rightarrow> (Done e, s'))"
| "MemoryStorage_op env (GetFrame sid i) s = (GotFrame (MemoryStorage_GetFrame s sid i), s)"
| "MemoryStorage_op env (ListFrames sid) s = (GotFrames (MemoryStorage_ListFrames env s sid), s)"
| "MemoryStorage_op env ListSessions s = (GotSessions (MemoryStorage_ListSessions env s), s)"
| "MemoryStorage_op env (DeleteSession sid) s =
     (case MemoryStorage_DeleteSession s sid of (e, s') \<Rightarrow> (Done e, s'))"

fun RedisStorage_op ::
  "platform \<Rightarrow> 'j json \<Rightarrow> op \<Rightarrow> 'j RedisStorage \<Rightarrow> result \<times> 'j RedisStorage" where
  "RedisStorage_op env js (PutFrame f) s =
     (case RedisStorage_PutFrame js s f of (e, s') \<Rightarrow> (Done e, s'))"
| "RedisStorage_op env js (GetFrame sid i) s = (GotFrame (RedisStorage_GetFrame js s sid i), s)"
| "RedisStorage_op env js (ListFrames sid) s =
     (GotFrames (RedisStorage_ListFrames env js s sid), s)"
| "RedisStorage_op env js ListSessions s = (GotSessions (RedisStorage_ListSessions env s), s)"
| "RedisStorage_op env js (DeleteSession sid) s =
     (case RedisStorage_DeleteSession s sid of (e, s') \<Rightarrow> (Done e, s'))"

text \<open>Running a sequence of operations: the results in order, and the final state.\<close>

fun run_ops :: "(op \<Rightarrow> 's \<Rightarrow> result \<times> 's) \<Rightarrow> op list \<Rightarrow> 's \<Rightarrow> result list \<times> 's" where
  "run_ops step [] s = ([], s)"
| "run_ops step (x # xs) s =
     (case step x s of (r, s1) \<Rightarrow> (case run_ops step xs s1 of (rs, s2) \<Rightarrow> (r # rs, s2)))"

section \<open>SessionManager (\<^verbatim>\<open>src/pkg/server/signaling.go\<close>, lines 78 to 194)\<close>

record 'm SessionInfo =
  ID :: string
  CreatedAt :: Time
  Type :: string
  Metadata :: 'm

text \<open>The \<^verbatim>\<open>sessions\<close> map of the manager (the field is named \<open>sm_sessions\<close> here).\<close>

record 'm SessionManager =
  sm_sessions :: "string \<rightharpoonup> 'm SessionInfo"

definition NewSessionManager :: "'m SessionManager" where
  "NewSessionManager = \<lparr>sm_sessions = Map.empty\<rparr>"

text \<open>
  \<^verbatim>\<open>t.Format("20060102150405")\<close>: year, month, day, hour, minute and second in decimal,
  zero-padded to four digits for the year and two for the others, nothing else.
\<close>

fun digits :: "nat \<Rightarrow> string" where
  "digits n = (if n < 10 then [char_of (48 + n)] else digits (n div 10) @ [char_of (48 + n mod 10)])"

declare digits.simps [simp del]

definition zero_pad :: "nat \<Rightarrow> nat \<Rightarrow> string" where
  "zero_pad w n = replicate (w - length (digits n)) (CHR ''0'') @ digits n"

definition Format_20060102150405 :: "Time \<Rightarrow> string" where
  "Format_20060102150405 t =
     zero_pad 4 (Year t) @ zero_pad 2 (Month t) @ zero_pad 2 (Day t) @
     zero_pad 2 (Hour t) @ zero_pad 2 (Minute t) @ zero_pad 2 (Second t)"

text \<open>\<open>now\<close> is the reading of \<^verbatim>\<open>time.Now()\<close> inside the call.\<close>

definition generateSessionID :: "Time \<Rightarrow> string" where
  "generateSessionID now = ''session_'' @ Format_20060102150405 now"

text \<open>
  \<^verbatim>\<open>CreateSession\<close> reads the clock twice: \<open>now1\<close> inside \<^verbatim>\<open>generateSessionID\<close>, then
  \<open>now2\<close> for \<^verbatim>\<open>CreatedAt\<close>. It never fails.
\<close>

definition CreateSession ::
  "'m SessionManager \<Rightarrow> Time \<Rightarrow> Time \<Rightarrow> string \<Rightarrow> 'm \<Rightarrow> 'm SessionInfo \<times> 'm SessionManager" where
  "CreateSession sm now1 now2 sessionType metadata =
     (let session = \<lparr>ID = generateSessionID now1, CreatedAt = now2,
                      Type = sessionType, Metadata = metadata\<rparr>
      in (session, sm\<lparr>sm_sessions := (sm_sessions sm)(ID session \<mapsto> session)\<rparr>))"

definition GetSession :: "'m SessionManager \<Rightarrow> string \<Rightarrow> 'm SessionInfo option" where
  "GetSession sm sessionID = sm_sessions sm sessionID"

definition CleanupSession :: "'m SessionManager \<Rightarrow> string \<Rightarrow> 'm SessionManager" where
  "CleanupSession sm sessionID =
     (if sm_sessions sm sessionID = None then sm
      else sm\<lparr>sm_sessions := (sm_sessions sm)(sessionID := None)\<rparr>)"

text \<open>
  \<^verbatim>\<open>now.Sub(t)\<close> is a \<^verbatim>\<open>time.Duration\<close>, an \<^verbatim>\<open>int64\<close> of nanoseconds: the difference
  of the monotonic readings, saturated at the largest and smallest duration.
\<close>

definition maxDuration :: int where
  "maxDuration = 2 ^ 63 - 1"

definition minDuration :: int where
  "minDuration = - (2 ^ 63)"

definition Sub :: "Time \<Rightarrow> Time \<Rightarrow> int" where
  "Sub t u =
     (let d = mono t - mono u
      in if d > maxDuration then maxDuration else if d < minDuration then minDuration else d)"

text \<open>
  The eviction scan: the loop over the map, deleting as it goes (Go allows deleting the
  entry being visited). \<open>now\<close> is the one clock reading taken before the loop.
\<close>

fun cleanup_loop ::
  "Time \<Rightarrow> int \<Rightarrow> string list \<Rightarrow> (string \<rightharpoonup> 'm SessionInfo) \<Rightarrow> (string \<rightharpoonup> 'm SessionInfo)" where
  "cleanup_loop now maxAge [] m = m"
| "cleanup_loop now maxAge (k # ids) m =
     (case m k of
        None \<Rightarrow> cleanup_loop now maxAge ids m
      | Some session \<Rightarrow>
          (if Sub now (CreatedAt session) > maxAge
           then cleanup_loop now maxAge ids (m(k := None))
           else cleanup_loop now maxAge ids m))"

definition cleanupExpiredSessions ::
  "platform \<Rightarrow> 'm SessionManager \<Rightarrow> Time \<Rightarrow> int \<Rightarrow> 'm SessionManager" where
  "cleanupExpiredSessions env sm now maxAge =
     sm\<lparr>sm_sessions :=
          cleanup_loop now maxAge (range_strings env (dom (sm_sessions sm))) (sm_sessions sm)\<rparr>"

text \<open>The sessions in the order of the visit; the source does not sort them.\<close>

definition GetActiveSessions :: "platform \<Rightarrow> 'm SessionManager \<Rightarrow> 'm SessionInfo list" where
  "GetActiveSessions env sm = range_values (range_strings env) (sm_sessions sm)"

section \<open>Plugin manager and registry (\<^verbatim>\<open>src/pkg/plugins/pluginutil.go\<close>)\<close>

text \<open>
  A plugin instance, as far as the manager uses it: \<^verbatim>\<open>Initialize\<close> returns an error
  (its message) or nil. \<open>'c\<close> is the type of the configuration map. A factory is a
  function without arguments; \<^verbatim>\<open>PluginType\<close> is a string.
\<close>

record 'c Plugin =
  Initialize :: "'c \<Rightarrow> string option"

type_synonym 'c PluginFactory = "unit \<Rightarrow> 'c Plugin"

record 'c Registry =
  plugins :: "string \<rightharpoonup> (string \<rightharpoonup> 'c PluginFactory)"

datatype registry_error = AlreadyRegistered string | PluginNotFound string string

definition NewRegistry :: "'c Registry" where
  "NewRegistry = \<lparr>plugins = Map.empty\<rparr>"

definition Register ::
  "'c Registry \<Rightarrow> string \<Rightarrow> string \<Rightarrow> 'c PluginFactory \<Rightarrow> registry_error option \<times> 'c Registry" where
  "Register r pType name factory =
     (let r1 = (if plugins r pType = None then r\<lparr>plugins := (plugins r)(pType \<mapsto> Map.empty)\<rparr> else r);
          byName = (case plugins r1 pType of Some m \<Rightarrow> m | None \<Rightarrow> Map.empty)
      in if byName name \<noteq> None then (Some (AlreadyRegistered name), r1)
         else (None, r1\<lparr>plugins := (plugins r1)(pType \<mapsto> byName(name \<mapsto> factory))\<rparr>))"

definition Create :: "'c Registry \<Rightarrow> string \<Rightarrow> string \<Rightarrow> registry_error + 'c Plugin" where
  "Create r pType name =
     (case plugins r pType of
        Some factories \<Rightarrow>
          (case factories name of
             Some factory \<Rightarrow> Inr (factory ())
           | None \<Rightarrow> Inl (PluginNotFound pType name))
      | None \<Rightarrow> Inl (PluginNotFound pType name))"

record PluginStatus =
  Running :: bool
  StartTime :: Time
  Error :: "string option"

record 'c PluginManager =
  registry :: "'c Registry"
  status :: "string \<rightharpoonup> PluginStatus"

datatype manager_error =
    FailedToCreate registry_error
  | FailedToInitialize string
  | PluginNotRunning string
  | StatusNotFound string

definition NewPluginManager :: "'c Registry \<Rightarrow> 'c PluginManager" where
  "NewPluginManager r = \<lparr>registry = r, status = Map.empty\<rparr>"

text \<open>\<open>now\<close> is the reading of \<^verbatim>\<open>time.Now()\<close> for \<^verbatim>\<open>StartTime\<close>.\<close>

definition StartPlugin ::
  "'c PluginManager \<Rightarrow> Time \<Rightarrow> string \<Rightarrow> string \<Rightarrow> 'c \<Rightarrow> manager_error option \<times> 'c PluginManager" where
  "StartPlugin pm now pType name config =
     (case Create (registry pm) pType name of
        Inl err \<Rightarrow> (Some (FailedToCreate err), pm)
      | Inr plugin \<Rightarrow>
          (case Initialize plugin config of
             Some err \<Rightarrow> (Some (FailedToInitialize err), pm)
           | None \<Rightarrow>
               (None, pm\<lparr>status := (status pm)(name \<mapsto>
                            \<lparr>Running = True, StartTime = now, Error = None\<rparr>)\<rparr>)))"

definition StopPlugin :: "'c PluginManager \<Rightarrow> string \<Rightarrow> manager_error option \<times> 'c PluginManager" where
  "StopPlugin pm name =
     (case status pm name of
        None \<Rightarrow> (Some (PluginNotRunning name), pm)
      | Some st \<Rightarrow>
          (if \<not> Running st then (Some (PluginNotRunning name), pm)
           else (None, pm\<lparr>status := (status pm)(name \<mapsto> st\<lparr>Running := False, Error := None\<rparr>)\<rparr>)))"

definition GetPluginStatus :: "'c PluginManager \<Rightarrow> string \<Rightarrow> manager_error + PluginStatus" where
  "GetPluginStatus pm name =
     (case status pm name of
        None \<Rightarrow> Inl (StatusNotFound name)
      | Some st \<Rightarrow> Inr st)"

section \<open>Notions used in the statements\<close>

text \<open>
  The invariant of MemoryStorage: a session ID is a key of \<^verbatim>\<open>sessions\<close> exactly when it
  is a key of \<^verbatim>\<open>frames\<close>.
\<close>

definition sessions_inv :: "MemoryStorage \<Rightarrow> bool" where
  "sessions_inv s = (\<forall>sid. sid \<in> sessions s \<longleftrightarrow> frames s sid \<noteq> None)"

text \<open>
  The key space of a RedisStorage is well-typed when the server answers, the key of the
  active sessions does not hold a list and no key of a session's frames holds a set.
  \<open>active\<close> is the set under the sessions key, \<open>stored\<close> the list under a session's
  frame key, and \<open>encode\<close> the serialised form of a frame that \<^verbatim>\<open>json.Marshal\<close> accepts.
\<close>

definition redis_inv :: "'j RedisStorage \<Rightarrow> bool" where
  "redis_inv s = (online (client s) \<and>
     (\<forall>xs. kv (client s) (sessionKey s) \<noteq> Some (RList xs)) \<and>
     (\<forall>sid S. kv (client s) (frameKey s sid) \<noteq> Some (RSet S)))"

definition active :: "'j RedisStorage \<Rightarrow> string set" where
  "active s = (case kv (client s) (sessionKey s) of Some (RSet S) \<Rightarrow> S | _ \<Rightarrow> {})"

definition stored :: "'j RedisStorage \<Rightarrow> string \<Rightarrow> 'j list" where
  "stored s sid = (case kv (client s) (frameKey s sid) of Some (RList xs) \<Rightarrow> xs | _ \<Rightarrow> [])"

definition encode :: "'j json \<Rightarrow> Frame \<Rightarrow> 'j" where
  "encode js f = (case Marshal js f of Some j \<Rightarrow> j)"

text \<open>The last frame of a sequence of Puts that carries index \<open>i\<close>.\<close>

definition latest :: "Frame list \<Rightarrow> int \<rightharpoonup> Frame" where
  "latest fs i = find (\<lambda>f. Index f = i) (rev fs)"

text \<open>
  A sequence of operations Puts no frame twice when every \<^verbatim>\<open>PutFrame\<close> in it, at the
  moment it runs, finds no frame stored for its session and index (\<^verbatim>\<open>GetFrame\<close> on
  MemoryStorage fails there).
\<close>

fun fresh_puts :: "op list \<Rightarrow> MemoryStorage \<Rightarrow> bool" where
  "fresh_puts [] s = True"
| "fresh_puts (PutFrame f # xs) s =
     ((case MemoryStorage_GetFrame s (SessionID f) (Index f) of
         Inl e \<Rightarrow> True
       | Inr g \<Rightarrow> False)
      \<and> fresh_puts xs (snd (MemoryStorage_PutFrame s f)))"
| "fresh_puts (DeleteSession sid # xs) s = fresh_puts xs (snd (MemoryStorage_DeleteSession s sid))"
| "fresh_puts (x # xs) s = fresh_puts xs s"

text \<open>
  The two backends hold the same sessions and frames: the active sessions of the server
  are the sessions of the memory store, and the list stored for a session holds, once
  each, the serialised frames the memory store maps the session's indices to.
\<close>

definition same_content :: "'j json \<Rightarrow> MemoryStorage \<Rightarrow> 'j RedisStorage \<Rightarrow> bool" where
  "same_content js m r =
     (sessions_inv m \<and> redis_inv r \<and> finite (sessions m) \<and> active r = sessions m \<and>
      (\<forall>sid. frames m sid = None \<longrightarrow> stored r sid = []) \<and>
      (\<forall>sid mf. frames m sid = Some mf \<longrightarrow>
         (\<exists>fs. stored r sid = map (encode js) fs \<and> (\<forall>f \<in> set fs. Marshal js f \<noteq> None) \<and>
               distinct (map Index fs) \<and> mf = map_of (map (\<lambda>f. (Index f, f)) fs))))"

text \<open>The factory registered under a kind and a name, and a sequence of registrations.\<close>

definition lookup_factory :: "'c Registry \<Rightarrow> string \<Rightarrow> string \<Rightarrow> 'c PluginFactory option" where
  "lookup_factory r pType name = (case plugins r pType of None \<Rightarrow> None | Some m \<Rightarrow> m name)"

fun Register_all :: "'c Registry \<Rightarrow> (string \<times> string \<times> 'c PluginFactory) list \<Rightarrow> 'c Registry" where
  "Register_all r [] = r"
| "Register_all r ((k, n, f) # rest) = Register_all (snd (Register r k n f)) rest"

subsection \<open>Concrete inputs\<close>

text \<open>
  A platform that visits keys and replies members in descending order and sorts a long
  slice with the frames of equal index reversed; a codec that keeps the frame itself as
  its serialised form; clock readings within one second, frames, plugins and sessions,
  for evaluating the operations.
\<close>

definition backwards :: platform where
  "backwards = \<lparr>range_strings = (\<lambda>A. rev (sorted_list_of_set A)),
                 range_indices = (\<lambda>A. rev (sorted_list_of_set A)),
                 smembers_order = (\<lambda>A. rev (sorted_list_of_set A)),
                 sort_long = (\<lambda>xs. sort_key Index (rev xs))\<rparr>"

definition frame_json :: "Frame json" where
  "frame_json = \<lparr>Marshal = Some, Unmarshal = Some\<rparr>"

definition tick :: "nat \<Rightarrow> Time" where
  "tick n = \<lparr>Year = 2024, Month = 1, Day = 2, Hour = 3, Minute = 4, Second = 5,
             Nanosecond = n, mono = int n\<rparr>"

definition frame_of :: "string \<Rightarrow> int \<Rightarrow> 8 word list \<Rightarrow> Frame" where
  "frame_of sid i d = \<lparr>SessionID = sid, Index = i, Data = d, Timestamp = tick 0,
                        MediaType = ''video'', Codec = ''h264'', KeyFrame = False\<rparr>"

definition mem_one :: MemoryStorage where
  "mem_one = snd (MemoryStorage_PutFrame NewMemoryStorage (frame_of ''s'' 0 [1]))"

definition redis_one :: "Frame RedisStorage" where
  "redis_one = snd (RedisStorage_PutFrame frame_json (emptyRedisStorage ''app:'') (frame_of ''s'' 0 [1]))"

definition good_plugin :: "unit Plugin" where
  "good_plugin = \<lparr>Initialize = (\<lambda>config. None)\<rparr>"

definition bad_plugin :: "unit Plugin" where
  "bad_plugin = \<lparr>Initialize = (\<lambda>config. Some ''no device'')\<rparr>"

definition two_plugins :: "unit Registry" where
  "two_plugins = Register_all NewRegistry
     [(''ingress'', ''camera'', \<lambda>u. good_plugin), (''ingress'', ''broken'', \<lambda>u. bad_plugin)]"

definition at_mono :: "int \<Rightarrow> Time" where
  "at_mono n = \<lparr>Year = 2024, Month = 1, Day = 2, Hour = 3, Minute = 4, Second = 5,
                Nanosecond = 0, mono = n\<rparr>"

definition two_sessions :: "unit SessionManager" where
  "two_sessions = \<lparr>sm_sessions =
     [''old'' \<mapsto> \<lparr>ID = ''old'', CreatedAt = at_mono 0, Type = ''webrtc'', Metadata = ()\<rparr>,
      ''new'' \<mapsto> \<lparr>ID = ''new'', CreatedAt = at_mono 5000000000, Type = ''webrtc'', Metadata = ()\<rparr>]\<rparr>"

section \<open>The platform\<close>

lemma visits_set: "visits v \<Longrightarrow> finite A \<Longrightarrow> set (v A) = A"
  by (simp add: visits_def)

lemma visits_distinct: "visits v \<Longrightarrow> distinct (v A)"
  by (simp add: visits_def)

lemma visits_notin: "visits v \<Longrightarrow> x \<notin> A \<Longrightarrow> x \<notin> set (v A)"
  by (auto simp: visits_def)

lemma visits_backwards: "visits (\<lambda>A. rev (sorted_list_of_set A))"
proof -
  have "set (sorted_list_of_set A) \<subseteq> A" for A :: "'a set"
    by (cases "finite A") simp_all
  then show ?thesis
    by (auto simp: visits_def)
qed

lemma platform_ok_backwards: "platform_ok backwards"
  by (simp add: platform_ok_def backwards_def visits_backwards)

text \<open>This platform does not visit keys in ascending order.\<close>

lemma backwards_visit:
  "range_strings backwards {''a'', ''s''} = [''s'', ''a'']"
  "smembers_order backwards {''a'', ''s''} = [''s'', ''a'']"
  "range_indices backwards {0, 1} = [1, 0]"
  by (simp_all add: backwards_def)

lemma platform_ok_visits:
  assumes "platform_ok env"
  shows "visits (range_strings env)" "visits (range_indices env)" "visits (smembers_order env)"
  using assms by (simp_all add: platform_ok_def)

lemma sort_Slice_sorted_perm:
  assumes "platform_ok env"
  shows "sorted (map Index (sort_Slice env xs))" "mset (sort_Slice env xs) = mset xs"
  using assms by (simp_all add: sort_Slice_def platform_ok_def)

lemma sort_Slice_short: "length xs \<le> 6 \<Longrightarrow> sort_Slice env xs = sort_key Index xs"
  by (simp add: sort_Slice_def)

text \<open>
  When no two frames of the slice share an index, \<^verbatim>\<open>sort.Slice\<close> has one possible
  result.
\<close>

lemma sorted_perm_unique:
  assumes "sorted (map Index ys)" "mset ys = mset xs" "distinct (map Index xs)"
  shows "ys = sort_key Index xs"
proof -
  have s: "set ys = set xs"
    using assms(2) by (metis set_mset_mset)
  have "mset (map Index ys) = mset (map Index xs)"
    using assms(2) by (metis mset_map)
  then have d: "distinct (map Index ys)"
    using assms(3) by (metis mset_eq_imp_distinct_iff)
  have inj: "inj_on Index (set xs)"
    using assms(3) by (simp add: distinct_map)
  have "distinct (map Index (sort_key Index xs))"
    using assms(3) by (simp add: distinct_map)
  then have "map Index ys = map Index (sort_key Index xs)"
    using assms(1) d s by (intro sorted_distinct_set_unique) simp_all
  moreover have "inj_on Index (set ys \<union> set (sort_key Index xs))"
    using inj s by simp
  ultimately show ?thesis
    by (simp add: inj_on_map_eq_map)
qed

lemma sort_Slice_distinct:
  "platform_ok env \<Longrightarrow> distinct (map Index xs) \<Longrightarrow> sort_Slice env xs = sort_key Index xs"
  using sort_Slice_sorted_perm[of env xs] by (intro sorted_perm_unique) simp_all

section \<open>MemoryStorage: the session invariant\<close>

lemma sessions_inv_New: "sessions_inv NewMemoryStorage"
  by (simp add: sessions_inv_def NewMemoryStorage_def)

lemma sessions_inv_PutFrame:
  "sessions_inv s \<Longrightarrow> sessions_inv (snd (MemoryStorage_PutFrame s f))"
  by (auto simp: sessions_inv_def MemoryStorage_PutFrame_def Let_def)

lemma sessions_inv_DeleteSession:
  "sessions_inv s \<Longrightarrow> sessions_inv (snd (MemoryStorage_DeleteSession s sid))"
  by (auto simp: sessions_inv_def MemoryStorage_DeleteSession_def)

lemma sessions_inv_op:
  assumes "sessions_inv s"
  shows "sessions_inv (snd (MemoryStorage_op env x s))"
proof (cases x)
  case (PutFrame f)
  then show ?thesis
    using sessions_inv_PutFrame[OF assms, of f] by (cases "MemoryStorage_PutFrame s f") simp
next
  case (DeleteSession sid)
  then show ?thesis
    using sessions_inv_DeleteSession[OF assms, of sid]
    by (cases "MemoryStorage_DeleteSession s sid") simp
qed (simp_all add: assms)

text \<open>
  Claim C10. A session ID is a key of \<^verbatim>\<open>sessions\<close> if and only if it is a key of
  \<^verbatim>\<open>frames\<close>: this holds of the storage \<^verbatim>\<open>NewMemoryStorage\<close> returns, and every
  operation (PutFrame, GetFrame, ListFrames, ListSessions, DeleteSession, Close) leads
  from a state where it holds to a state where it holds.
\<close>

theorem MemoryStorage_sessions_inv:
  "sessions_inv NewMemoryStorage \<and>
   (\<forall>env s x. sessions_inv s \<longrightarrow> sessions_inv (snd (MemoryStorage_op env x s))) \<and>
   (\<forall>s. sessions_inv s \<longrightarrow> sessions_inv (snd (MemoryStorage_Close s)))"
  by (simp add: sessions_inv_New sessions_inv_op MemoryStorage_Close_def)

theorem MemoryStorage_sessions_inv_witness:
  "sessions_inv NewMemoryStorage \<and>
   sessions_inv (snd (MemoryStorage_op backwards (PutFrame (frame_of ''s'' 0 [1])) NewMemoryStorage)) \<and>
   sessions (snd (MemoryStorage_op backwards (PutFrame (frame_of ''s'' 0 [1])) NewMemoryStorage)) = {''s''} \<and>
   sessions_inv (snd (MemoryStorage_Close NewMemoryStorage))"
proof -
  have "sessions (snd (MemoryStorage_op backwards (PutFrame (frame_of ''s'' 0 [1])) NewMemoryStorage)) = {''s''}"
    by (simp add: MemoryStorage_PutFrame_def NewMemoryStorage_def frame_of_def Let_def)
  then show ?thesis
    using MemoryStorage_sessions_inv by blast
qed

section \<open>Session IDs\<close>

lemma generateSessionID_same_second:
  "Year a = Year b \<Longrightarrow> Month a = Month b \<Longrightarrow> Day a = Day b \<Longrightarrow> Hour a = Hour b \<Longrightarrow>
   Minute a = Minute b \<Longrightarrow> Second a = Second b \<Longrightarrow> generateSessionID a = generateSessionID b"
  by (simp add: generateSessionID_def Format_20060102150405_def)

lemma generateSessionID_tick: "generateSessionID (tick n) = ''session_20240102030405''"
proof -
  have "generateSessionID (tick n) = generateSessionID (tick 0)"
    by (rule generateSessionID_same_second) (simp_all add: tick_def)
  also have "\<dots> = ''session_20240102030405''"
    by code_simp
  finally show ?thesis .
qed

text \<open>
  Claim C4 says that two calls of \<^verbatim>\<open>CreateSession\<close> return distinct IDs, also within
  one clock tick. The code derives the ID from the clock alone, at the resolution of one
  second: two calls whose clock readings (100, 150, 900 and 950 nanoseconds into the same
  second) fall in that second return the same ID, and the second session replaces the
  first in the registry.
\<close>

theorem CreateSession_same_second_same_ID:
  "ID (fst (CreateSession (NewSessionManager :: unit SessionManager)
              (tick 100) (tick 150) ''webrtc'' ())) = ''session_20240102030405'' \<and>
   ID (fst (CreateSession
              (snd (CreateSession (NewSessionManager :: unit SessionManager)
                      (tick 100) (tick 150) ''webrtc'' ()))
              (tick 900) (tick 950) ''rtsp'' ())) = ''session_20240102030405'' \<and>
   GetSession
     (snd (CreateSession
              (snd (CreateSession (NewSessionManager :: unit SessionManager)
                      (tick 100) (tick 150) ''webrtc'' ()))
              (tick 900) (tick 950) ''rtsp'' ()))
     ''session_20240102030405''
   = Some \<lparr>ID = ''session_20240102030405'', CreatedAt = tick 950, Type = ''rtsp'', Metadata = ()\<rparr>"
  by (simp add: CreateSession_def GetSession_def generateSessionID_tick Let_def)

section \<open>The reaper\<close>

lemma cleanup_loop_lookup:
  "cleanup_loop now maxAge ids m k =
     (case m k of
        None \<Rightarrow> None
      | Some session \<Rightarrow>
          if k \<in> set ids \<and> Sub now (CreatedAt session) > maxAge then None else Some session)"
  by (induction ids arbitrary: m) (auto split: option.splits)

lemma Sub_in_range:
  "minDuration \<le> mono t - mono u \<Longrightarrow> mono t - mono u \<le> maxDuration \<Longrightarrow>
   Sub t u = mono t - mono u"
  by (simp add: Sub_def Let_def)

text \<open>
  Claim C9. One eviction scan removes exactly the sessions whose age, the duration
  \<^verbatim>\<open>now.Sub(session.CreatedAt)\<close>, exceeds \<open>maxAge\<close>: such a session is absent afterwards,
  a session whose age is at most \<open>maxAge\<close> is present with the same SessionInfo, and no
  session appears, in whatever order the scan visits the map. The registry is a Go map,
  so it has finitely many keys.
\<close>

theorem cleanupExpiredSessions_evicts_exactly_expired:
  assumes "platform_ok env" "finite (dom (sm_sessions sm))"
  shows "GetSession (cleanupExpiredSessions env sm now maxAge) k =
     (case GetSession sm k of
        None \<Rightarrow> None
      | Some session \<Rightarrow>
          if Sub now (CreatedAt session) > maxAge then None else Some session)"
  using visits_set[OF platform_ok_visits(1)[OF assms(1)] assms(2)]
  by (auto simp: GetSession_def cleanupExpiredSessions_def cleanup_loop_lookup
      split: option.splits)

theorem cleanupExpiredSessions_evicts_exactly_expired_witness:
  "platform_ok backwards \<and> finite (dom (sm_sessions two_sessions)) \<and>
   Sub (at_mono 6000000000) (at_mono 0) > 2000000000 \<and>
   Sub (at_mono 6000000000) (at_mono 5000000000) \<le> 2000000000 \<and>
   GetSession (cleanupExpiredSessions backwards two_sessions (at_mono 6000000000) 2000000000) ''old''
     = None \<and>
   GetSession (cleanupExpiredSessions backwards two_sessions (at_mono 6000000000) 2000000000) ''new''
     = Some \<lparr>ID = ''new'', CreatedAt = at_mono 5000000000, Type = ''webrtc'', Metadata = ()\<rparr>"
proof -
  have f: "finite (dom (sm_sessions two_sessions))"
    by (simp add: two_sessions_def)
  show ?thesis
    using f platform_ok_backwards
      cleanupExpiredSessions_evicts_exactly_expired[OF platform_ok_backwards f,
        of "at_mono 6000000000" 2000000000 "''old''"]
      cleanupExpiredSessions_evicts_exactly_expired[OF platform_ok_backwards f,
        of "at_mono 6000000000" 2000000000 "''new''"]
    by (simp add: two_sessions_def GetSession_def Sub_def at_mono_def maxDuration_def minDuration_def)
qed

section \<open>Plugin manager and registry\<close>

text \<open>
  Claim C7. When the instance the registry creates fails \<^verbatim>\<open>Initialize\<close>,
  \<^verbatim>\<open>StartPlugin\<close> returns an error and leaves the manager as it was: the status map is
  unchanged, and \<^verbatim>\<open>GetPluginStatus\<close> of the name is still not found if it was before.
  When \<^verbatim>\<open>Initialize\<close> succeeds, \<^verbatim>\<open>StartPlugin\<close> returns no error and the status of the
  name is recorded with \<^verbatim>\<open>Running\<close> true.
\<close>

theorem StartPlugin_records_status_only_on_success:
  assumes "Create (registry pm) pType name = Inr plugin"
  shows "(Initialize plugin config \<noteq> None \<longrightarrow>
            fst (StartPlugin pm now pType name config) \<noteq> None \<and>
            snd (StartPlugin pm now pType name config) = pm \<and>
            status (snd (StartPlugin pm now pType name config)) = status pm \<and>
            (GetPluginStatus pm name = Inl (StatusNotFound name) \<longrightarrow>
             GetPluginStatus (snd (StartPlugin pm now pType name config)) name
               = Inl (StatusNotFound name)))
       \<and> (Initialize plugin config = None \<longrightarrow>
            fst (StartPlugin pm now pType name config) = None \<and>
            (\<exists>st. GetPluginStatus (snd (StartPlugin pm now pType name config)) name = Inr st
                  \<and> Running st))"
  using assms by (auto simp: StartPlugin_def GetPluginStatus_def split: option.splits)

lemma Create_two_plugins:
  "Create two_plugins ''ingress'' ''camera'' = Inr good_plugin"
  "Create two_plugins ''ingress'' ''broken'' = Inr bad_plugin"
  by (simp_all add: two_plugins_def Create_def Register_def NewRegistry_def Let_def)

theorem StartPlugin_records_status_only_on_success_witness:
  "Create (registry (NewPluginManager two_plugins)) ''ingress'' ''broken'' = Inr bad_plugin \<and>
   Initialize bad_plugin () \<noteq> None \<and>
   fst (StartPlugin (NewPluginManager two_plugins) (tick 0) ''ingress'' ''broken'' ()) \<noteq> None \<and>
   GetPluginStatus (NewPluginManager two_plugins) ''broken'' = Inl (StatusNotFound ''broken'') \<and>
   GetPluginStatus (snd (StartPlugin (NewPluginManager two_plugins) (tick 0) ''ingress'' ''broken'' ()))
     ''broken'' = Inl (StatusNotFound ''broken'') \<and>
   Create (registry (NewPluginManager two_plugins)) ''ingress'' ''camera'' = Inr good_plugin \<and>
   Initialize good_plugin () = None \<and>
   fst (StartPlugin (NewPluginManager two_plugins) (tick 0) ''ingress'' ''camera'' ()) = None \<and>
   (\<exists>st. GetPluginStatus (snd (StartPlugin (NewPluginManager two_plugins) (tick 0) ''ingress'' ''camera'' ()))
           ''camera'' = Inr st \<and> Running st)"
proof -
  have b: "Create (registry (NewPluginManager two_plugins)) ''ingress'' ''broken'' = Inr bad_plugin"
    and g: "Create (registry (NewPluginManager two_plugins)) ''ingress'' ''camera'' = Inr good_plugin"
    by (simp_all add: NewPluginManager_def Create_two_plugins)
  have nb: "Initialize bad_plugin () \<noteq> None" and ng: "Initialize good_plugin () = None"
    by (simp_all add: bad_plugin_def good_plugin_def)
  have nf: "GetPluginStatus (NewPluginManager two_plugins) ''broken'' = Inl (StatusNotFound ''broken'')"
    by (simp add: GetPluginStatus_def NewPluginManager_def)
  show ?thesis
    using b g nb ng nf
      StartPlugin_records_status_only_on_success[OF b, of "()" "tick 0"]
      StartPlugin_records_status_only_on_success[OF g, of "()" "tick 0"]
    by simp
qed

lemma Register_new:
  "lookup_factory r k n = None \<Longrightarrow>
   fst (Register r k n f) = None \<and> lookup_factory (snd (Register r k n f)) k n = Some f"
  by (auto simp: lookup_factory_def Register_def Let_def split: option.splits)

lemma Register_again:
  "lookup_factory r k n = Some g \<Longrightarrow> Register r k n f = (Some (AlreadyRegistered n), r)"
  by (auto simp: lookup_factory_def Register_def Let_def split: option.splits)

lemma Register_other:
  "(k', n') \<noteq> (k, n) \<Longrightarrow> lookup_factory (snd (Register r k' n' f)) k n = lookup_factory r k n"
  by (auto simp: lookup_factory_def Register_def Let_def split: option.splits)

lemma Create_lookup:
  "Create r k n =
     (case lookup_factory r k n of None \<Rightarrow> Inl (PluginNotFound k n) | Some f \<Rightarrow> Inr (f ()))"
  by (auto simp: lookup_factory_def Create_def split: option.splits)

lemma Register_all_keeps:
  "lookup_factory r k n = Some g \<Longrightarrow> lookup_factory (Register_all r regs) k n = Some g"
proof (induction regs arbitrary: r)
  case Nil
  then show ?case by simp
next
  case (Cons x regs)
  obtain k' n' f where x: "x = (k', n', f)" by (cases x)
  have "lookup_factory (snd (Register r k' n' f)) k n = Some g"
  proof (cases "(k', n') = (k, n)")
    case True
    then show ?thesis using Cons.prems Register_again[of r k n g f] by simp
  next
    case False
    then show ?thesis using Cons.prems Register_other[of k' n' k n r f] by simp
  qed
  then show ?case using Cons.IH x by simp
qed

lemma Register_all_never:
  "\<forall>(k', n', f) \<in> set regs. (k', n') \<noteq> (k, n) \<Longrightarrow> lookup_factory r k n = None \<Longrightarrow>
   lookup_factory (Register_all r regs) k n = None"
proof (induction regs arbitrary: r)
  case Nil
  then show ?case by simp
next
  case (Cons x regs)
  obtain k' n' f where x: "x = (k', n', f)" by (cases x)
  have "lookup_factory (snd (Register r k' n' f)) k n = None"
    using Cons.prems x Register_other[of k' n' k n r f] by auto
  then show ?case using Cons x by auto
qed

text \<open>
  Claim C8. In a registry where nothing is registered under (kind, name), \<^verbatim>\<open>Register\<close>
  succeeds; after it, whatever registrations follow, every further \<^verbatim>\<open>Register\<close> of the
  same pair returns the already-registered error, leaves the registry as it is, and the
  factory stored under the pair is still the first one. In a registry built from
  registrations of other pairs only, \<^verbatim>\<open>Create\<close> of the pair returns the not-found error.
\<close>

theorem Register_write_once_Create_NotFound:
  "(lookup_factory r pType name = None \<longrightarrow>
      fst (Register r pType name f) = None \<and>
      Register (Register_all (snd (Register r pType name f)) later) pType name f'
        = (Some (AlreadyRegistered name), Register_all (snd (Register r pType name f)) later) \<and>
      lookup_factory (Register_all (snd (Register r pType name f)) later) pType name = Some f)
   \<and> ((\<forall>(k, n, g) \<in> set regs. (k, n) \<noteq> (pType, name)) \<longrightarrow>
        Create (Register_all NewRegistry regs) pType name = Inl (PluginNotFound pType name))"
proof (intro conjI impI)
  assume a: "lookup_factory r pType name = None"
  show "fst (Register r pType name f) = None"
    using Register_new[OF a] by simp
  have l: "lookup_factory (Register_all (snd (Register r pType name f)) later) pType name = Some f"
    using Register_new[OF a] Register_all_keeps by blast
  then show "Register (Register_all (snd (Register r pType name f)) later) pType name f'
      = (Some (AlreadyRegistered name), Register_all (snd (Register r pType name f)) later)"
    by (rule Register_again)
  show "lookup_factory (Register_all (snd (Register r pType name f)) later) pType name = Some f"
    by (rule l)
next
  assume "\<forall>(k, n, g) \<in> set regs. (k, n) \<noteq> (pType, name)"
  then have "lookup_factory (Register_all NewRegistry regs) pType name = None"
    by (rule Register_all_never) (simp add: lookup_factory_def NewRegistry_def)
  then show "Create (Register_all NewRegistry regs) pType name = Inl (PluginNotFound pType name)"
    by (simp add: Create_lookup)
qed

theorem Register_write_once_Create_NotFound_witness:
  "lookup_factory (NewRegistry :: unit Registry) ''ingress'' ''camera'' = None \<and>
   fst (Register (NewRegistry :: unit Registry) ''ingress'' ''camera'' (\<lambda>u. good_plugin)) = None \<and>
   fst (Register (snd (Register (NewRegistry :: unit Registry) ''ingress'' ''camera'' (\<lambda>u. good_plugin)))
          ''ingress'' ''camera'' (\<lambda>u. bad_plugin)) = Some (AlreadyRegistered ''camera'') \<and>
   lookup_factory
     (snd (Register (snd (Register (NewRegistry :: unit Registry) ''ingress'' ''camera'' (\<lambda>u. good_plugin)))
             ''ingress'' ''camera'' (\<lambda>u. bad_plugin))) ''ingress'' ''camera'' = Some (\<lambda>u. good_plugin) \<and>
   Create (Register_all (NewRegistry :: unit Registry) [(''ingress'', ''camera'', \<lambda>u. good_plugin)])
      ''egress'' ''nonexistent'' = Inl (PluginNotFound ''egress'' ''nonexistent'')"
proof -
  have n: "lookup_factory (NewRegistry :: unit Registry) ''ingress'' ''camera'' = None"
    by (simp add: lookup_factory_def NewRegistry_def)
  have o: "\<forall>(k, n, g) \<in> set [(''ingress'', ''camera'', \<lambda>u. good_plugin)].
             (k, n) \<noteq> (''egress'', ''nonexistent'')"
    by simp
  show ?thesis
    using n o
      Register_write_once_Create_NotFound[of "NewRegistry :: unit Registry" "''ingress''" "''camera''"
        "\<lambda>u. good_plugin" "[]" "\<lambda>u. bad_plugin" "[]"]
      Register_write_once_Create_NotFound[of "NewRegistry :: unit Registry" "''egress''" "''nonexistent''"
        "\<lambda>u. good_plugin" "[]" "\<lambda>u. bad_plugin" "[(''ingress'', ''camera'', \<lambda>u. good_plugin)]"]
    by auto
qed

section \<open>Frame store: sessions\<close>

subsection \<open>MemoryStorage\<close>

lemma sessions_PutFrame:
  "sessions_inv s \<Longrightarrow>
   sessions (snd (MemoryStorage_PutFrame s f)) = insert (SessionID f) (sessions s)"
  by (auto simp: sessions_inv_def MemoryStorage_PutFrame_def Let_def)

lemma fst_MemoryStorage_PutFrame: "fst (MemoryStorage_PutFrame s f) = None"
  by (simp add: MemoryStorage_PutFrame_def Let_def)

lemma MemoryStorage_puts:
  "sessions_inv s \<Longrightarrow>
   (case run_ops (MemoryStorage_op env) (map PutFrame fs) s of
      (rs, s') \<Rightarrow> set rs \<subseteq> {Done None} \<and> sessions_inv s' \<and>
                  sessions s' = sessions s \<union> SessionID ` set fs)"
proof (induction fs arbitrary: s)
  case Nil
  then show ?case by simp
next
  case (Cons f fs)
  obtain e s1 where p: "MemoryStorage_PutFrame s f = (e, s1)"
    by (cases "MemoryStorage_PutFrame s f")
  have e: "e = None"
    using fst_MemoryStorage_PutFrame[of s f] p by simp
  have i1: "sessions_inv s1"
    using sessions_inv_PutFrame[OF Cons.prems, of f] p by simp
  have s1: "sessions s1 = insert (SessionID f) (sessions s)"
    using sessions_PutFrame[OF Cons.prems, of f] p by simp
  show ?case
    using Cons.IH[OF i1] p e s1 by (auto split: prod.splits)
qed

text \<open>Sorting the keys a visit collected gives the keys in ascending order, each once.\<close>

lemma sort_visit:
  assumes "visits v" "finite A"
  shows "sort (v A) = sorted_list_of_set A"
proof -
  have "set (v A) = A" "distinct (v A)"
    using assms by (simp_all add: visits_set visits_distinct)
  then have "sorted_list_of_set A = sort (v A)"
    using sorted_list_of_set_sort_remdups[of "v A"] by (simp add: distinct_remdups_id)
  then show ?thesis
    by simp
qed

lemma MemoryStorage_ListSessions_after_puts:
  assumes "platform_ok env"
  shows "set (fst (run_ops (MemoryStorage_op env) (map PutFrame fs) NewMemoryStorage)) \<subseteq> {Done None} \<and>
   MemoryStorage_ListSessions env (snd (run_ops (MemoryStorage_op env) (map PutFrame fs) NewMemoryStorage))
     = Inr (sorted_list_of_set (SessionID ` set fs))"
proof -
  obtain rs s where r: "run_ops (MemoryStorage_op env) (map PutFrame fs) NewMemoryStorage = (rs, s)"
    by (cases "run_ops (MemoryStorage_op env) (map PutFrame fs) NewMemoryStorage")
  have "set rs \<subseteq> {Done None}" "sessions s = SessionID ` set fs"
    using MemoryStorage_puts[OF sessions_inv_New, where fs = fs and env = env] r
    by (simp_all add: NewMemoryStorage_def)
  then show ?thesis
    using r sort_visit[OF platform_ok_visits(1)[OF assms], of "SessionID ` set fs"]
    by (simp add: MemoryStorage_ListSessions_def)
qed

subsection \<open>RedisStorage\<close>

lemma keys_differ [simp]: "frameKey s sid \<noteq> sessionKey s" "sessionKey s \<noteq> frameKey s sid"
  by (simp_all add: frameKey_def sessionKey_def)

lemma frameKey_inj [simp]: "frameKey s a = frameKey s b \<longleftrightarrow> a = b"
  by (simp add: frameKey_def)

lemma redis_inv_empty:
  "redis_inv (emptyRedisStorage p)" "active (emptyRedisStorage p) = {}"
  "stored (emptyRedisStorage p) sid = []"
  by (simp_all add: redis_inv_def emptyRedisStorage_def active_def stored_def)

lemma RedisStorage_PutFrame_effect:
  assumes "redis_inv s" "Marshal js f = Some j"
  shows "(case RedisStorage_PutFrame js s f of
            (e, s') \<Rightarrow> e = None \<and> redis_inv s' \<and> prefix s' = prefix s \<and>
              active s' = insert (SessionID f) (active s) \<and>
              (\<forall>sid. stored s' sid
                       = (if sid = SessionID f then stored s sid @ [j] else stored s sid)))"
  using assms
  by (auto simp: redis_inv_def RedisStorage_PutFrame_def Exec_def active_def stored_def
        sessionKey_def frameKey_def
      split: option.splits rvalue.splits prod.splits)

lemma RedisStorage_puts:
  "redis_inv s \<Longrightarrow> \<forall>f \<in> set fs. Marshal js f \<noteq> None \<Longrightarrow>
   (case run_ops (RedisStorage_op env js) (map PutFrame fs) s of
      (rs, s') \<Rightarrow> set rs \<subseteq> {Done None} \<and> redis_inv s' \<and>
        active s' = active s \<union> SessionID ` set fs \<and>
        (\<forall>sid. stored s' sid
                 = stored s sid @ map (encode js) (filter (\<lambda>f. SessionID f = sid) fs)))"
proof (induction fs arbitrary: s)
  case Nil
  then show ?case by simp
next
  case (Cons f fs)
  obtain j where j: "Marshal js f = Some j"
    using Cons.prems by auto
  obtain e s1 where p: "RedisStorage_PutFrame js s f = (e, s1)"
    by (cases "RedisStorage_PutFrame js s f")
  have r: "e = None" "redis_inv s1" "active s1 = insert (SessionID f) (active s)"
    "\<And>sid. stored s1 sid = (if sid = SessionID f then stored s sid @ [j] else stored s sid)"
    using RedisStorage_PutFrame_effect[OF Cons.prems(1) j] p by auto
  have "\<forall>f \<in> set fs. Marshal js f \<noteq> None"
    using Cons.prems by simp
  from Cons.IH[OF r(2) this] show ?case
    using p r j by (auto simp: encode_def split: prod.splits)
qed

lemma RedisStorage_ListSessions_active:
  assumes "platform_ok env" "redis_inv s" "finite (active s)"
  shows "RedisStorage_ListSessions env s = Inr (sorted_list_of_set (active s))"
proof (cases "kv (client s) (sessionKey s)")
  case None
  then show ?thesis
    using assms(2) by (simp add: redis_inv_def RedisStorage_ListSessions_def SMembers_def active_def)
next
  case (Some v)
  then obtain S where S: "kv (client s) (sessionKey s) = Some (RSet S)"
    using assms(2) by (cases v) (auto simp: redis_inv_def)
  have "finite S"
    using assms(3) S by (simp add: active_def)
  then have "sort (smembers_order env S) = sorted_list_of_set S"
    by (rule sort_visit[OF platform_ok_visits(3)[OF assms(1)]])
  then show ?thesis
    using assms(2) S by (simp add: redis_inv_def RedisStorage_ListSessions_def SMembers_def active_def)
qed

lemma RedisStorage_GetFrame_stored:
  "redis_inv s \<Longrightarrow> RedisStorage_GetFrame js s sid i =
     (if sid \<in> active s then find_frame js (stored s sid) sid i else Inl (SessionNotFound sid))"
  by (auto simp: redis_inv_def RedisStorage_GetFrame_def SIsMember_def LRange_all_def
        active_def stored_def
      split: option.splits rvalue.splits)

lemma RedisStorage_ListFrames_stored:
  "redis_inv s \<Longrightarrow> RedisStorage_ListFrames env js s sid =
     (if sid \<in> active s
      then (case decode_frames js (stored s sid) of
              Inl e \<Rightarrow> Inl e
            | Inr fs \<Rightarrow> Inr (sort_Slice env fs))
      else Inl (SessionNotFound sid))"
  by (auto simp: redis_inv_def RedisStorage_ListFrames_def SIsMember_def LRange_all_def
        active_def stored_def
      split: option.splits rvalue.splits)

lemma decode_frames_encode:
  "json_ok js \<Longrightarrow> \<forall>f \<in> set fs. Marshal js f \<noteq> None \<Longrightarrow>
   decode_frames js (map (encode js) fs) = Inr fs"
  by (induction fs) (auto simp: json_ok_def encode_def)

lemma find_frame_encode:
  "json_ok js \<Longrightarrow> \<forall>f \<in> set fs. Marshal js f \<noteq> None \<Longrightarrow>
   find_frame js (map (encode js) fs) sid i =
     (case find (\<lambda>f. Index f = i) fs of
        None \<Rightarrow> Inl (FrameNotFound sid i)
      | Some f \<Rightarrow> Inr f)"
  by (induction fs) (auto simp: json_ok_def encode_def)

lemma json_ok_frame_json: "json_ok frame_json"
  by (simp add: json_ok_def frame_json_def)

lemma Marshal_frame_json: "Marshal frame_json f \<noteq> None"
  by (simp add: frame_json_def)

text \<open>
  Claim C5. After PutFrame calls for the frames \<open>fs\<close> on an empty store (every call
  succeeds: MemoryStorage never fails, RedisStorage does not when the server answers and
  the frame serialises), ListSessions returns the session IDs of \<open>fs\<close>, each once, in
  strictly ascending lexicographic order, in both backends, in whatever order Go visits
  the map of sessions and Redis replies the members of the set.
\<close>

theorem ListSessions_after_puts:
  assumes "platform_ok env" "\<forall>f \<in> set fs. Marshal js f \<noteq> None"
  shows "set (fst (run_ops (MemoryStorage_op env) (map PutFrame fs) NewMemoryStorage)) \<subseteq> {Done None} \<and>
         (\<exists>xs. MemoryStorage_ListSessions env
                  (snd (run_ops (MemoryStorage_op env) (map PutFrame fs) NewMemoryStorage)) = Inr xs \<and>
               sorted_wrt (<) xs \<and> set xs = SessionID ` set fs) \<and>
         set (fst (run_ops (RedisStorage_op env js) (map PutFrame fs) (emptyRedisStorage p)))
           \<subseteq> {Done None} \<and>
         (\<exists>xs. RedisStorage_ListSessions env
                  (snd (run_ops (RedisStorage_op env js) (map PutFrame fs) (emptyRedisStorage p))) = Inr xs \<and>
               sorted_wrt (<) xs \<and> set xs = SessionID ` set fs)"
proof -
  obtain rs s where r: "run_ops (RedisStorage_op env js) (map PutFrame fs) (emptyRedisStorage p) = (rs, s)"
    by (cases "run_ops (RedisStorage_op env js) (map PutFrame fs) (emptyRedisStorage p)")
  have a: "set rs \<subseteq> {Done None}" "redis_inv s" "active s = SessionID ` set fs"
    using RedisStorage_puts[OF redis_inv_empty(1)[of p] assms(2), where env = env] r
    by (simp_all add: redis_inv_empty)
  have "RedisStorage_ListSessions env s = Inr (sorted_list_of_set (SessionID ` set fs))"
    using RedisStorage_ListSessions_active[OF assms(1) a(2)] a(3) by simp
  then show ?thesis
    using r a(1) MemoryStorage_ListSessions_after_puts[OF assms(1), of fs] by simp
qed

theorem ListSessions_after_puts_witness:
  "platform_ok backwards \<and>
   range_strings backwards {''a'', ''s''} = [''s'', ''a''] \<and>
   smembers_order backwards {''a'', ''s''} = [''s'', ''a''] \<and>
   Marshal frame_json (frame_of ''s'' 0 [1]) \<noteq> None \<and>
   Marshal frame_json (frame_of ''a'' 7 [2]) \<noteq> None \<and>
   Marshal frame_json (frame_of ''s'' 1 [3]) \<noteq> None \<and>
   (\<exists>xs. MemoryStorage_ListSessions backwards
            (snd (run_ops (MemoryStorage_op backwards)
                    [PutFrame (frame_of ''s'' 0 [1]), PutFrame (frame_of ''a'' 7 [2]),
                     PutFrame (frame_of ''s'' 1 [3])] NewMemoryStorage)) = Inr xs \<and>
         sorted_wrt (<) xs \<and> set xs = {''s'', ''a''}) \<and>
   (\<exists>xs. RedisStorage_ListSessions backwards
            (snd (run_ops (RedisStorage_op backwards frame_json)
                    [PutFrame (frame_of ''s'' 0 [1]), PutFrame (frame_of ''a'' 7 [2]),
                     PutFrame (frame_of ''s'' 1 [3])] (emptyRedisStorage ''app:''))) = Inr xs \<and>
         sorted_wrt (<) xs \<and> set xs = {''s'', ''a''})"
proof -
  have m: "\<forall>f \<in> set [frame_of ''s'' 0 [1], frame_of ''a'' 7 [2], frame_of ''s'' 1 [3]].
             Marshal frame_json f \<noteq> None"
    by (simp add: Marshal_frame_json)
  have i: "SessionID ` set [frame_of ''s'' 0 [1], frame_of ''a'' 7 [2], frame_of ''s'' 1 [3]]
             = {''s'', ''a''}"
    by (auto simp: frame_of_def)
  show ?thesis
    using ListSessions_after_puts[OF platform_ok_backwards m, of "''app:''"] i Marshal_frame_json
      platform_ok_backwards backwards_visit(1,2)
    by simp
qed

text \<open>
  Claim C6. For a session that is present (MemoryStorage: a key of \<^verbatim>\<open>frames\<close>;
  RedisStorage: \<^verbatim>\<open>SISMEMBER\<close> of the active sessions answers true), \<^verbatim>\<open>DeleteSession\<close>
  returns no error; afterwards \<^verbatim>\<open>ListFrames\<close> and \<^verbatim>\<open>GetFrame\<close> at any index return the
  session-not-found error, \<^verbatim>\<open>ListSessions\<close> succeeds without the session, and a second
  \<^verbatim>\<open>DeleteSession\<close> returns the session-not-found error. In both backends, on any
  platform.
\<close>

theorem DeleteSession_then_NotFound:
  assumes "platform_ok env"
  shows "(frames m sid \<noteq> None \<longrightarrow>
      fst (MemoryStorage_DeleteSession m sid) = None \<and>
      MemoryStorage_ListFrames env (snd (MemoryStorage_DeleteSession m sid)) sid
        = Inl (SessionNotFound sid) \<and>
      MemoryStorage_GetFrame (snd (MemoryStorage_DeleteSession m sid)) sid i
        = Inl (SessionNotFound sid) \<and>
      (\<exists>xs. MemoryStorage_ListSessions env (snd (MemoryStorage_DeleteSession m sid)) = Inr xs \<and>
            sid \<notin> set xs) \<and>
      fst (MemoryStorage_DeleteSession (snd (MemoryStorage_DeleteSession m sid)) sid)
        = Some (SessionNotFound sid) \<and>
      NotFound (SessionNotFound sid))
   \<and> (SIsMember (client r) (sessionKey r) sid = Inr True \<longrightarrow>
      fst (RedisStorage_DeleteSession r sid) = None \<and>
      RedisStorage_ListFrames env js (snd (RedisStorage_DeleteSession r sid)) sid
        = Inl (SessionNotFound sid) \<and>
      RedisStorage_GetFrame js (snd (RedisStorage_DeleteSession r sid)) sid i
        = Inl (SessionNotFound sid) \<and>
      (\<exists>xs. RedisStorage_ListSessions env (snd (RedisStorage_DeleteSession r sid)) = Inr xs \<and>
            sid \<notin> set xs) \<and>
      fst (RedisStorage_DeleteSession (snd (RedisStorage_DeleteSession r sid)) sid)
        = Some (SessionNotFound sid))"
proof (intro conjI impI)
  assume a: "frames m sid \<noteq> None"
  have d: "MemoryStorage_DeleteSession m sid
             = (None, m\<lparr>frames := (frames m)(sid := None), sessions := sessions m - {sid}\<rparr>)"
    using a by (simp add: MemoryStorage_DeleteSession_def)
  show "fst (MemoryStorage_DeleteSession m sid) = None"
    by (simp add: d)
  show "MemoryStorage_ListFrames env (snd (MemoryStorage_DeleteSession m sid)) sid
          = Inl (SessionNotFound sid)"
    by (simp add: d MemoryStorage_ListFrames_def)
  show "MemoryStorage_GetFrame (snd (MemoryStorage_DeleteSession m sid)) sid i
          = Inl (SessionNotFound sid)"
    by (simp add: d MemoryStorage_GetFrame_def)
  show "\<exists>xs. MemoryStorage_ListSessions env (snd (MemoryStorage_DeleteSession m sid)) = Inr xs \<and>
             sid \<notin> set xs"
    using visits_notin[OF platform_ok_visits(1)[OF assms], of sid "sessions m - {sid}"]
    by (simp add: d MemoryStorage_ListSessions_def)
  show "fst (MemoryStorage_DeleteSession (snd (MemoryStorage_DeleteSession m sid)) sid)
          = Some (SessionNotFound sid)"
    by (simp add: d MemoryStorage_DeleteSession_def)
  show "NotFound (SessionNotFound sid)"
    by simp
next
  assume a: "SIsMember (client r) (sessionKey r) sid = Inr True"
  from a obtain S where on: "online (client r)"
    and S: "kv (client r) (sessionKey r) = Some (RSet S)" and mem: "sid \<in> S"
    by (auto simp: SIsMember_def split: if_splits option.splits rvalue.splits)
  obtain e r' where d: "RedisStorage_DeleteSession r sid = (e, r')"
    by (cases "RedisStorage_DeleteSession r sid")
  have keys: "sessionKey r' = sessionKey r" "online (client r')" and e: "e = None"
    using d a on S
    by (auto simp: RedisStorage_DeleteSession_def Exec_def sessionKey_def
        split: if_splits option.splits prod.splits rvalue.splits)
  have after: "kv (client r') (sessionKey r) = None \<or>
               (\<exists>S'. kv (client r') (sessionKey r) = Some (RSet S') \<and> sid \<notin> S')"
    using d a on S
    by (auto simp: RedisStorage_DeleteSession_def Exec_def
        split: if_splits option.splits prod.splits rvalue.splits)
  have nm: "SIsMember (client r') (sessionKey r') sid = Inr False"
    using after keys by (auto simp: SIsMember_def)
  show "fst (RedisStorage_DeleteSession r sid) = None"
    by (simp add: d e)
  show "RedisStorage_ListFrames env js (snd (RedisStorage_DeleteSession r sid)) sid
          = Inl (SessionNotFound sid)"
    by (simp add: d nm RedisStorage_ListFrames_def)
  show "RedisStorage_GetFrame js (snd (RedisStorage_DeleteSession r sid)) sid i
          = Inl (SessionNotFound sid)"
    by (simp add: d nm RedisStorage_GetFrame_def)
  show "\<exists>xs. RedisStorage_ListSessions env (snd (RedisStorage_DeleteSession r sid)) = Inr xs \<and>
             sid \<notin> set xs"
    using after keys visits_notin[OF platform_ok_visits(3)[OF assms], of sid]
    by (auto simp: d RedisStorage_ListSessions_def SMembers_def)
  have "fst (RedisStorage_DeleteSession r' sid) = Some (SessionNotFound sid)"
    by (simp add: nm RedisStorage_DeleteSession_def)
  then show "fst (RedisStorage_DeleteSession (snd (RedisStorage_DeleteSession r sid)) sid)
          = Some (SessionNotFound sid)"
    by (simp add: d)
qed

theorem DeleteSession_then_NotFound_witness:
  "platform_ok backwards \<and>
   frames mem_one ''s'' \<noteq> None \<and>
   fst (MemoryStorage_DeleteSession mem_one ''s'') = None \<and>
   MemoryStorage_ListFrames backwards (snd (MemoryStorage_DeleteSession mem_one ''s'')) ''s''
     = Inl (SessionNotFound ''s'') \<and>
   MemoryStorage_GetFrame (snd (MemoryStorage_DeleteSession mem_one ''s'')) ''s'' 0
     = Inl (SessionNotFound ''s'') \<and>
   fst (MemoryStorage_DeleteSession (snd (MemoryStorage_DeleteSession mem_one ''s'')) ''s'')
     = Some (SessionNotFound ''s'') \<and>
   SIsMember (client redis_one) (sessionKey redis_one) ''s'' = Inr True \<and>
   fst (RedisStorage_DeleteSession redis_one ''s'') = None \<and>
   RedisStorage_ListFrames backwards frame_json (snd (RedisStorage_DeleteSession redis_one ''s'')) ''s''
     = Inl (SessionNotFound ''s'') \<and>
   RedisStorage_GetFrame frame_json (snd (RedisStorage_DeleteSession redis_one ''s'')) ''s'' 0
     = Inl (SessionNotFound ''s'') \<and>
   fst (RedisStorage_DeleteSession (snd (RedisStorage_DeleteSession redis_one ''s'')) ''s'')
     = Some (SessionNotFound ''s'')"
proof -
  have m: "frames mem_one ''s'' \<noteq> None"
    by (simp add: mem_one_def MemoryStorage_PutFrame_def NewMemoryStorage_def frame_of_def Let_def)
  have r: "SIsMember (client redis_one) (sessionKey redis_one) ''s'' = Inr True"
    by (simp add: redis_one_def RedisStorage_PutFrame_def emptyRedisStorage_def frame_of_def
        frame_json_def Exec_def SIsMember_def sessionKey_def frameKey_def)
  show ?thesis
    using m r platform_ok_backwards
      DeleteSession_then_NotFound[OF platform_ok_backwards,
        where m = mem_one and sid = "''s''" and i = 0 and r = redis_one and js = frame_json]
    by simp
qed

section \<open>Frame store: a second Put for the same session and index\<close>

lemma run_ops_append:
  "run_ops step (xs @ ys) s =
     (case run_ops step xs s of
        (rs, s1) \<Rightarrow> (case run_ops step ys s1 of (rs', s2) \<Rightarrow> (rs @ rs', s2)))"
  by (induction xs arbitrary: s) (auto split: prod.splits)

lemma RedisStorage_two_puts:
  assumes "Marshal js f1 \<noteq> None" "Marshal js f2 \<noteq> None" "SessionID f2 = SessionID f1"
  shows "(case run_ops (RedisStorage_op env js) [PutFrame f1, PutFrame f2] (emptyRedisStorage p) of
            (rs, s) \<Rightarrow> rs = [Done None, Done None] \<and> redis_inv s \<and>
              active s = {SessionID f1} \<and>
              stored s (SessionID f1) = map (encode js) [f1, f2])"
proof -
  have m: "\<forall>f \<in> set [f1, f2]. Marshal js f \<noteq> None"
    using assms by simp
  obtain rs s where r: "run_ops (RedisStorage_op env js) (map PutFrame [f1, f2]) (emptyRedisStorage p) = (rs, s)"
    by (cases "run_ops (RedisStorage_op env js) (map PutFrame [f1, f2]) (emptyRedisStorage p)")
  have l: "length rs = 2"
    using r by (auto split: prod.splits)
  have a: "set rs \<subseteq> {Done None}" "redis_inv s" "active s = {SessionID f1}"
    "stored s (SessionID f1) = map (encode js) [f1, f2]"
    using RedisStorage_puts[OF redis_inv_empty(1)[of p] m, where env = env] r assms(3)
    by (simp_all add: redis_inv_empty)
  have "rs = [Done None, Done None]"
    using l a(1) by (cases rs; cases "tl rs") auto
  then show ?thesis
    using r a by simp
qed

lemma MemoryStorage_two_puts:
  assumes "SessionID f2 = SessionID f1" "Index f2 = Index f1"
  shows "run_ops (MemoryStorage_op env) [PutFrame f1, PutFrame f2] NewMemoryStorage =
           ([Done None, Done None],
            \<lparr>frames = [SessionID f1 \<mapsto> [Index f1 \<mapsto> f2]], sessions = {SessionID f1}\<rparr>)"
  using assms by (simp add: MemoryStorage_PutFrame_def NewMemoryStorage_def Let_def)

lemma visits_single:
  assumes "visits v"
  shows "v {k} = [k]"
proof -
  have "distinct (v {k})" "set (v {k}) = {k}"
    using assms by (simp_all add: visits_distinct visits_set)
  then show ?thesis
    by (cases "v {k}"; cases "tl (v {k})") auto
qed

lemma range_values_single: "visits v \<Longrightarrow> range_values v [k \<mapsto> x] = [x]"
  by (simp add: range_values_def visits_single List.map_filter_simps)

text \<open>
  Claim C1 says that the two backends return the same results for every sequence of
  operations from the empty state. They do not once a frame is Put twice for one session
  and index: MemoryStorage keeps the later frame, RedisStorage appends to the session's
  list, so its \<^verbatim>\<open>GetFrame\<close> finds the earlier frame and its \<^verbatim>\<open>ListFrames\<close> returns both.
  Here \<open>f1\<close> and \<open>f2\<close> have the same session and index; the results differ even when
  \<open>f1 = f2\<close>, and they are the same on every platform (a slice of two frames is sorted
  by insertion).
\<close>

theorem backends_differ_after_second_put:
  assumes "json_ok js" "Marshal js f1 \<noteq> None" "Marshal js f2 \<noteq> None"
    "SessionID f2 = SessionID f1" "Index f2 = Index f1" "platform_ok env"
  shows "fst (run_ops (MemoryStorage_op env)
                ([PutFrame f1, PutFrame f2] @ [GetFrame (SessionID f1) (Index f1), ListFrames (SessionID f1)])
                NewMemoryStorage)
           = [Done None, Done None, GotFrame (Inr f2), GotFrames (Inr [f2])] \<and>
         fst (run_ops (RedisStorage_op env js)
                ([PutFrame f1, PutFrame f2] @ [GetFrame (SessionID f1) (Index f1), ListFrames (SessionID f1)])
                (emptyRedisStorage p))
           = [Done None, Done None, GotFrame (Inr f1), GotFrames (Inr [f1, f2])]"
proof
  show "fst (run_ops (MemoryStorage_op env)
                ([PutFrame f1, PutFrame f2] @ [GetFrame (SessionID f1) (Index f1), ListFrames (SessionID f1)])
                NewMemoryStorage)
           = [Done None, Done None, GotFrame (Inr f2), GotFrames (Inr [f2])]"
    unfolding run_ops_append MemoryStorage_two_puts[OF assms(4,5)]
    by (simp add: MemoryStorage_GetFrame_def MemoryStorage_ListFrames_def
        range_values_single[OF platform_ok_visits(2)[OF assms(6)]] sort_Slice_short)
next
  obtain rs s where r: "run_ops (RedisStorage_op env js) [PutFrame f1, PutFrame f2] (emptyRedisStorage p) = (rs, s)"
    by (cases "run_ops (RedisStorage_op env js) [PutFrame f1, PutFrame f2] (emptyRedisStorage p)")
  have a: "rs = [Done None, Done None]" "redis_inv s" "active s = {SessionID f1}"
    "stored s (SessionID f1) = map (encode js) [f1, f2]"
    using RedisStorage_two_puts[OF assms(2,3,4), where p = p and env = env] r by simp_all
  have m: "\<forall>f \<in> set [f1, f2]. Marshal js f \<noteq> None"
    using assms by simp
  have g: "RedisStorage_GetFrame js s (SessionID f1) (Index f1) = Inr f1"
    using a RedisStorage_GetFrame_stored[OF a(2)] find_frame_encode[OF assms(1) m] by simp
  have l: "RedisStorage_ListFrames env js s (SessionID f1) = Inr [f1, f2]"
    using a RedisStorage_ListFrames_stored[OF a(2)] decode_frames_encode[OF assms(1) m] assms(5)
    by (simp add: sort_Slice_short)
  show "fst (run_ops (RedisStorage_op env js)
                ([PutFrame f1, PutFrame f2] @ [GetFrame (SessionID f1) (Index f1), ListFrames (SessionID f1)])
                (emptyRedisStorage p))
           = [Done None, Done None, GotFrame (Inr f1), GotFrames (Inr [f1, f2])]"
    unfolding run_ops_append r by (simp add: a g l)
qed

theorem backends_differ_after_second_put_witness:
  "json_ok frame_json \<and> platform_ok backwards \<and>
   Marshal frame_json (frame_of ''s'' 0 [1]) \<noteq> None \<and>
   Marshal frame_json (frame_of ''s'' 0 [2]) \<noteq> None \<and>
   fst (run_ops (MemoryStorage_op backwards)
          [PutFrame (frame_of ''s'' 0 [1]), PutFrame (frame_of ''s'' 0 [2]),
           GetFrame ''s'' 0, ListFrames ''s''] NewMemoryStorage)
     = [Done None, Done None, GotFrame (Inr (frame_of ''s'' 0 [2])),
        GotFrames (Inr [frame_of ''s'' 0 [2]])] \<and>
   fst (run_ops (RedisStorage_op backwards frame_json)
          [PutFrame (frame_of ''s'' 0 [1]), PutFrame (frame_of ''s'' 0 [2]),
           GetFrame ''s'' 0, ListFrames ''s''] (emptyRedisStorage ''app:''))
     = [Done None, Done None, GotFrame (Inr (frame_of ''s'' 0 [1])),
        GotFrames (Inr [frame_of ''s'' 0 [1], frame_of ''s'' 0 [2]])] \<and>
   frame_of ''s'' 0 [1] \<noteq> frame_of ''s'' 0 [2]"
proof -
  have i: "SessionID (frame_of ''s'' 0 [2]) = SessionID (frame_of ''s'' 0 [1])"
    "Index (frame_of ''s'' 0 [2]) = Index (frame_of ''s'' 0 [1])"
    "SessionID (frame_of ''s'' 0 [1]) = ''s''" "Index (frame_of ''s'' 0 [1]) = 0"
    "frame_of ''s'' 0 [1] \<noteq> frame_of ''s'' 0 [2]"
    by (simp_all add: frame_of_def)
  show ?thesis
    using backends_differ_after_second_put[OF json_ok_frame_json Marshal_frame_json
        Marshal_frame_json i(1,2) platform_ok_backwards, of "''app:''"] i(3,4,5)
      json_ok_frame_json Marshal_frame_json platform_ok_backwards
    by simp
qed

text \<open>
  Claim C2 says that after \<^verbatim>\<open>PutFrame(f1)\<close> and \<^verbatim>\<open>PutFrame(f2)\<close> for the same session
  and index, \<^verbatim>\<open>GetFrame\<close> returns \<open>f2\<close>, in both backends. MemoryStorage does, from any
  state; RedisStorage, from the empty state, returns \<open>f1\<close>.
\<close>

theorem GetFrame_after_second_put:
  assumes "json_ok js" "Marshal js f1 \<noteq> None" "Marshal js f2 \<noteq> None"
    "SessionID f2 = SessionID f1" "Index f2 = Index f1"
  shows "MemoryStorage_GetFrame
           (snd (MemoryStorage_PutFrame (snd (MemoryStorage_PutFrame m f1)) f2))
           (SessionID f1) (Index f1) = Inr f2 \<and>
         RedisStorage_GetFrame js
           (snd (RedisStorage_PutFrame js
                   (snd (RedisStorage_PutFrame js (emptyRedisStorage p) f1)) f2))
           (SessionID f1) (Index f1) = Inr f1"
proof
  show "MemoryStorage_GetFrame
           (snd (MemoryStorage_PutFrame (snd (MemoryStorage_PutFrame m f1)) f2))
           (SessionID f1) (Index f1) = Inr f2"
    using assms(4,5) by (simp add: MemoryStorage_GetFrame_def MemoryStorage_PutFrame_def Let_def)
next
  obtain rs s where r: "run_ops (RedisStorage_op backwards js) [PutFrame f1, PutFrame f2] (emptyRedisStorage p) = (rs, s)"
    by (cases "run_ops (RedisStorage_op backwards js) [PutFrame f1, PutFrame f2] (emptyRedisStorage p)")
  have a: "redis_inv s" "active s = {SessionID f1}"
    "stored s (SessionID f1) = map (encode js) [f1, f2]"
    using RedisStorage_two_puts[OF assms(2,3,4), where p = p and env = backwards] r by simp_all
  have s: "s = snd (RedisStorage_PutFrame js (snd (RedisStorage_PutFrame js (emptyRedisStorage p) f1)) f2)"
    using r by (auto split: prod.splits)
  have m: "\<forall>f \<in> set [f1, f2]. Marshal js f \<noteq> None"
    using assms by simp
  have "RedisStorage_GetFrame js s (SessionID f1) (Index f1) = Inr f1"
    using a RedisStorage_GetFrame_stored[OF a(1)] find_frame_encode[OF assms(1) m] by simp
  then show "RedisStorage_GetFrame js
           (snd (RedisStorage_PutFrame js
                   (snd (RedisStorage_PutFrame js (emptyRedisStorage p) f1)) f2))
           (SessionID f1) (Index f1) = Inr f1"
    using s by simp
qed

theorem GetFrame_after_second_put_witness:
  "json_ok frame_json \<and>
   Marshal frame_json (frame_of ''s'' 0 [1]) \<noteq> None \<and>
   Marshal frame_json (frame_of ''s'' 0 [2]) \<noteq> None \<and>
   MemoryStorage_GetFrame
     (snd (MemoryStorage_PutFrame (snd (MemoryStorage_PutFrame NewMemoryStorage (frame_of ''s'' 0 [1])))
             (frame_of ''s'' 0 [2])))
     ''s'' 0 = Inr (frame_of ''s'' 0 [2]) \<and>
   RedisStorage_GetFrame frame_json
     (snd (RedisStorage_PutFrame frame_json
             (snd (RedisStorage_PutFrame frame_json (emptyRedisStorage ''app:'') (frame_of ''s'' 0 [1])))
             (frame_of ''s'' 0 [2])))
     ''s'' 0 = Inr (frame_of ''s'' 0 [1]) \<and>
   frame_of ''s'' 0 [1] \<noteq> frame_of ''s'' 0 [2]"
proof -
  have i: "SessionID (frame_of ''s'' 0 [2]) = SessionID (frame_of ''s'' 0 [1])"
    "Index (frame_of ''s'' 0 [2]) = Index (frame_of ''s'' 0 [1])"
    "SessionID (frame_of ''s'' 0 [1]) = ''s''" "Index (frame_of ''s'' 0 [1]) = 0"
    "frame_of ''s'' 0 [1] \<noteq> frame_of ''s'' 0 [2]"
    by (simp_all add: frame_of_def)
  show ?thesis
    using GetFrame_after_second_put[OF json_ok_frame_json Marshal_frame_json
        Marshal_frame_json i(1,2), of NewMemoryStorage "''app:''"] i(3,4,5)
      json_ok_frame_json Marshal_frame_json
    by simp
qed


section \<open>Frame store: ListFrames after a sequence of Puts\<close>

lemma find_app:
  "find P (xs @ ys) = (case find P xs of None \<Rightarrow> find P ys | Some x \<Rightarrow> Some x)"
  by (induction xs) simp_all

lemma latest_Nil: "latest [] = Map.empty"
  by (rule ext) (simp add: latest_def)

lemma latest_Cons: "latest (f # fs) = [Index f \<mapsto> f] ++ latest fs"
proof (rule ext)
  fix i
  show "latest (f # fs) i = ([Index f \<mapsto> f] ++ latest fs) i"
    by (cases "find (\<lambda>f. Index f = i) (rev fs)")
      (auto simp: latest_def find_app map_add_def)
qed

lemma latest_Some: "latest fs i = Some f \<Longrightarrow> Index f = i \<and> f \<in> set fs"
proof (induction fs)
  case Nil
  then show ?case by (simp add: latest_Nil)
next
  case (Cons g fs)
  then show ?case
    by (cases "latest fs i") (auto simp: latest_Cons map_add_def split: if_splits)
qed

lemma dom_latest: "dom (latest fs) = Index ` set fs"
proof (induction fs)
  case Nil
  then show ?case by (simp add: latest_Nil)
next
  case (Cons f fs)
  then show ?case by (auto simp: latest_Cons)
qed

lemma frames_MemoryStorage_PutFrame:
  "frames (snd (MemoryStorage_PutFrame s f)) =
     (frames s)(SessionID f \<mapsto>
        (case frames s (SessionID f) of None \<Rightarrow> Map.empty | Some m \<Rightarrow> m)(Index f \<mapsto> f))"
  by (auto simp: MemoryStorage_PutFrame_def Let_def split: option.splits)

lemma frames_MemoryStorage_puts:
  "\<forall>f \<in> set fs. SessionID f = sid \<Longrightarrow> fs \<noteq> [] \<Longrightarrow>
   frames (snd (run_ops (MemoryStorage_op env) (map PutFrame fs) s)) sid =
     Some ((case frames s sid of None \<Rightarrow> Map.empty | Some m \<Rightarrow> m) ++ latest fs)"
proof (induction fs arbitrary: s)
  case Nil
  then show ?case by simp
next
  case (Cons f fs)
  define m0 where "m0 = (case frames s sid of None \<Rightarrow> Map.empty | Some m \<Rightarrow> m)"
  define s1 where "s1 = snd (MemoryStorage_PutFrame s f)"
  have sid: "SessionID f = sid"
    using Cons.prems by simp
  have f1: "frames s1 sid = Some (m0(Index f \<mapsto> f))"
    by (simp add: s1_def m0_def frames_MemoryStorage_PutFrame sid)
  have run: "snd (run_ops (MemoryStorage_op env) (map PutFrame (f # fs)) s)
               = snd (run_ops (MemoryStorage_op env) (map PutFrame fs) s1)"
    by (simp add: s1_def split: prod.splits)
  have eq: "m0(Index f \<mapsto> f) ++ latest fs = m0 ++ latest (f # fs)"
    by (rule ext) (simp add: latest_Cons map_add_def split: option.splits)
  show ?case
  proof (cases "fs = []")
    case True
    then show ?thesis
      using f1 eq run by (simp add: m0_def latest_Nil)
  next
    case False
    have p: "\<forall>f \<in> set fs. SessionID f = sid"
      using Cons.prems by simp
    have "frames (snd (run_ops (MemoryStorage_op env) (map PutFrame fs) s1)) sid
            = Some ((case frames s1 sid of None \<Rightarrow> Map.empty | Some m \<Rightarrow> m) ++ latest fs)"
      by (rule Cons.IH[OF p False])
    then have "frames (snd (run_ops (MemoryStorage_op env) (map PutFrame fs) s1)) sid
            = Some (m0(Index f \<mapsto> f) ++ latest fs)"
      unfolding f1 by simp
    then have "frames (snd (run_ops (MemoryStorage_op env) (map PutFrame (f # fs)) s)) sid
            = Some (m0 ++ latest (f # fs))"
      by (simp only: run eq)
    then show ?thesis
      unfolding m0_def .
  qed
qed

lemma map_filter_present:
  "\<forall>k \<in> set ks. m k \<noteq> None \<Longrightarrow> List.map_filter m ks = map (\<lambda>k. the (m k)) ks"
  by (induction ks) (auto simp: List.map_filter_simps)

lemma range_values_visit:
  assumes "visits v" "finite (dom m)"
  shows "range_values v m = map (\<lambda>k. the (m k)) (v (dom m))"
  unfolding range_values_def
  using visits_set[OF assms] by (intro map_filter_present) auto

text \<open>
  A map that holds every frame under the frame's own index, as \<^verbatim>\<open>PutFrame\<close> leaves it:
  the visit collects one frame per key, and the sorted slice has the keys in ascending
  order, whatever the order of the visit and whatever \<^verbatim>\<open>sort.Slice\<close> does with equal
  indices.
\<close>

lemma range_values_keyed:
  assumes "visits v" "finite (dom m)" "\<And>i f. m i = Some f \<Longrightarrow> Index f = i"
  shows "map Index (range_values v m) = v (dom m)"
    and "set (range_values v m) = ran m"
proof -
  have k: "\<And>k. k \<in> dom m \<Longrightarrow> Index (the (m k)) = k"
    using assms(3) by auto
  have s: "set (v (dom m)) = dom m"
    by (rule visits_set[OF assms(1,2)])
  have "map (Index \<circ> (\<lambda>k. the (m k))) (v (dom m)) = v (dom m)"
  proof (rule map_idI)
    fix x
    assume "x \<in> set (v (dom m))"
    then have "x \<in> dom m"
      using s by simp
    then show "(Index \<circ> (\<lambda>k. the (m k))) x = x"
      using k by simp
  qed
  then show "map Index (range_values v m) = v (dom m)"
    by (simp add: range_values_visit[OF assms(1,2)])
  show "set (range_values v m) = ran m"
    using s by (force simp: range_values_visit[OF assms(1,2)] ran_def dom_def)
qed

lemma sort_Slice_range_values_keyed:
  assumes "platform_ok env" "finite (dom m)" "\<And>i f. m i = Some f \<Longrightarrow> Index f = i"
  shows "map Index (sort_Slice env (range_values (range_indices env) m))
           = sorted_list_of_set (dom m)"
    and "set (sort_Slice env (range_values (range_indices env) m)) = ran m"
proof -
  define ys where "ys = range_values (range_indices env) m"
  define xs where "xs = sort_Slice env ys"
  have v: "visits (range_indices env)"
    by (rule platform_ok_visits(2)[OF assms(1)])
  have ys: "map Index ys = range_indices env (dom m)" "set ys = ran m"
    using range_values_keyed[OF v assms(2,3)] by (simp_all add: ys_def)
  have dy: "distinct (map Index ys)" and sy: "set (map Index ys) = dom m"
    using ys(1) visits_distinct[OF v] visits_set[OF v assms(2)] by simp_all
  have xs: "sorted (map Index xs)" "mset xs = mset ys"
    using sort_Slice_sorted_perm[OF assms(1), of ys] by (simp_all add: xs_def)
  have "mset (map Index xs) = mset (map Index ys)"
    using xs(2) by (metis mset_map)
  then have dx: "distinct (map Index xs)" and sx: "set (map Index xs) = dom m"
    using dy sy by (metis mset_eq_imp_distinct_iff, metis set_mset_mset)
  have "map Index xs = sorted_list_of_set (dom m)"
    using xs(1) dx sx assms(2) by (intro sorted_distinct_set_unique) simp_all
  then show "map Index (sort_Slice env (range_values (range_indices env) m))
           = sorted_list_of_set (dom m)"
    by (simp add: xs_def ys_def)
  have "set xs = set ys"
    using xs(2) by (metis set_mset_mset)
  then show "set (sort_Slice env (range_values (range_indices env) m)) = ran m"
    using ys(2) by (simp add: xs_def ys_def)
qed

lemma MemoryStorage_ListFrames_after_puts:
  assumes "platform_ok env" "\<forall>f \<in> set fs. SessionID f = sid" "fs \<noteq> []"
  shows "\<exists>xs. MemoryStorage_ListFrames env
                (snd (run_ops (MemoryStorage_op env) (map PutFrame fs) NewMemoryStorage)) sid = Inr xs \<and>
              map Index xs = sorted_list_of_set (Index ` set fs) \<and>
              set xs = {f. latest fs (Index f) = Some f}"
proof -
  have fr: "frames (snd (run_ops (MemoryStorage_op env) (map PutFrame fs) NewMemoryStorage)) sid
              = Some (latest fs)"
    using frames_MemoryStorage_puts[OF assms(2,3), where s = NewMemoryStorage and env = env]
    by (simp add: NewMemoryStorage_def)
  have fin: "finite (dom (latest fs))"
    by (simp add: dom_latest)
  have key: "\<And>i f. latest fs i = Some f \<Longrightarrow> Index f = i"
    using latest_Some by blast
  have "ran (latest fs) = {f. latest fs (Index f) = Some f}"
    using key by (auto simp: ran_def)
  then show ?thesis
    using fr sort_Slice_range_values_keyed[OF assms(1) fin key]
    by (simp add: MemoryStorage_ListFrames_def dom_latest)
qed

text \<open>
  Claim C3 says that after Puts of the frames \<open>fs\<close> for one session, \<^verbatim>\<open>ListFrames\<close>
  returns one frame per distinct index, each the latest Put for its index, in strictly
  ascending order of index, in both backends. MemoryStorage does, on any platform.
  RedisStorage returns every frame that was Put: a permutation of \<open>fs\<close> in ascending
  order of index, as many frames as Puts, an index that was Put twice twice (and,
  \<^verbatim>\<open>sort.Slice\<close> not being stable, frames of equal index in no particular order).
\<close>

theorem ListFrames_after_puts:
  assumes "json_ok js" "\<forall>f \<in> set fs. Marshal js f \<noteq> None \<and> SessionID f = sid" "fs \<noteq> []"
    "platform_ok env"
  shows "(\<exists>xs. MemoryStorage_ListFrames env
                 (snd (run_ops (MemoryStorage_op env) (map PutFrame fs) NewMemoryStorage)) sid = Inr xs \<and>
               map Index xs = sorted_list_of_set (Index ` set fs) \<and>
               set xs = {f. latest fs (Index f) = Some f}) \<and>
         (\<exists>ys. RedisStorage_ListFrames env js
                 (snd (run_ops (RedisStorage_op env js) (map PutFrame fs) (emptyRedisStorage p))) sid
                 = Inr ys \<and>
               sorted (map Index ys) \<and> mset ys = mset fs)"
proof
  show "\<exists>xs. MemoryStorage_ListFrames env
                 (snd (run_ops (MemoryStorage_op env) (map PutFrame fs) NewMemoryStorage)) sid = Inr xs \<and>
               map Index xs = sorted_list_of_set (Index ` set fs) \<and>
               set xs = {f. latest fs (Index f) = Some f}"
    using assms(2,3) by (intro MemoryStorage_ListFrames_after_puts[OF assms(4)]) simp_all
next
  obtain rs s where r: "run_ops (RedisStorage_op env js) (map PutFrame fs) (emptyRedisStorage p) = (rs, s)"
    by (cases "run_ops (RedisStorage_op env js) (map PutFrame fs) (emptyRedisStorage p)")
  have m: "\<forall>f \<in> set fs. Marshal js f \<noteq> None"
    using assms(2) by simp
  have f: "filter (\<lambda>f. SessionID f = sid) fs = fs"
    using assms(2) by (simp add: filter_id_conv)
  have a: "redis_inv s" "active s = SessionID ` set fs" "stored s sid = map (encode js) fs"
    using RedisStorage_puts[OF redis_inv_empty(1)[of p] m, where env = env] r f
    by (simp_all add: redis_inv_empty)
  have "sid \<in> active s"
    using a(2) assms(2,3) by (cases fs) auto
  then have "RedisStorage_ListFrames env js s sid = Inr (sort_Slice env fs)"
    using a RedisStorage_ListFrames_stored[OF a(1)] decode_frames_encode[OF assms(1) m] by simp
  then show "\<exists>ys. RedisStorage_ListFrames env js
                 (snd (run_ops (RedisStorage_op env js) (map PutFrame fs) (emptyRedisStorage p))) sid
                 = Inr ys \<and>
               sorted (map Index ys) \<and> mset ys = mset fs"
    using r sort_Slice_sorted_perm[OF assms(4), of fs] by simp
qed

text \<open>
  Up to six Puts the list RedisStorage returns is determined: the frames in ascending
  order of index, frames of equal index in the order of their Puts.
\<close>

lemma RedisStorage_ListFrames_short:
  assumes "json_ok js" "\<forall>f \<in> set fs. Marshal js f \<noteq> None \<and> SessionID f = sid" "fs \<noteq> []"
    "length fs \<le> 6"
  shows "RedisStorage_ListFrames env js
           (snd (run_ops (RedisStorage_op env js) (map PutFrame fs) (emptyRedisStorage p))) sid
           = Inr (sort_key Index fs)"
proof -
  obtain rs s where r: "run_ops (RedisStorage_op env js) (map PutFrame fs) (emptyRedisStorage p) = (rs, s)"
    by (cases "run_ops (RedisStorage_op env js) (map PutFrame fs) (emptyRedisStorage p)")
  have m: "\<forall>f \<in> set fs. Marshal js f \<noteq> None"
    using assms(2) by simp
  have f: "filter (\<lambda>f. SessionID f = sid) fs = fs"
    using assms(2) by (simp add: filter_id_conv)
  have a: "redis_inv s" "active s = SessionID ` set fs" "stored s sid = map (encode js) fs"
    using RedisStorage_puts[OF redis_inv_empty(1)[of p] m, where env = env] r f
    by (simp_all add: redis_inv_empty)
  have "sid \<in> active s"
    using a(2) assms(2,3) by (cases fs) auto
  then have "RedisStorage_ListFrames env js s sid = Inr (sort_Slice env fs)"
    using a RedisStorage_ListFrames_stored[OF a(1)] decode_frames_encode[OF assms(1) m] by simp
  then show ?thesis
    using r assms(4) by (simp add: sort_Slice_short)
qed

theorem ListFrames_after_puts_witness:
  "json_ok frame_json \<and> platform_ok backwards \<and>
   range_indices backwards {0, 1} = [1, 0] \<and>
   Marshal frame_json (frame_of ''s'' 1 [1]) \<noteq> None \<and>
   Marshal frame_json (frame_of ''s'' 0 [2]) \<noteq> None \<and>
   Marshal frame_json (frame_of ''s'' 0 [3]) \<noteq> None \<and>
   (\<exists>xs. MemoryStorage_ListFrames backwards
            (snd (run_ops (MemoryStorage_op backwards)
                    [PutFrame (frame_of ''s'' 1 [1]), PutFrame (frame_of ''s'' 0 [2]),
                     PutFrame (frame_of ''s'' 0 [3])]
                    NewMemoryStorage)) ''s'' = Inr xs \<and>
         map Index xs = [0, 1]) \<and>
   (\<exists>ys. RedisStorage_ListFrames backwards frame_json
            (snd (run_ops (RedisStorage_op backwards frame_json)
                    [PutFrame (frame_of ''s'' 1 [1]), PutFrame (frame_of ''s'' 0 [2]),
                     PutFrame (frame_of ''s'' 0 [3])]
                    (emptyRedisStorage ''app:''))) ''s'' = Inr ys \<and>
         sorted (map Index ys) \<and>
         mset ys = mset [frame_of ''s'' 1 [1], frame_of ''s'' 0 [2], frame_of ''s'' 0 [3]]) \<and>
   RedisStorage_ListFrames backwards frame_json
     (snd (run_ops (RedisStorage_op backwards frame_json)
             [PutFrame (frame_of ''s'' 1 [1]), PutFrame (frame_of ''s'' 0 [2]),
              PutFrame (frame_of ''s'' 0 [3])]
             (emptyRedisStorage ''app:''))) ''s''
     = Inr [frame_of ''s'' 0 [2], frame_of ''s'' 0 [3], frame_of ''s'' 1 [1]]"
proof -
  have h: "\<forall>f \<in> set [frame_of ''s'' 1 [1], frame_of ''s'' 0 [2], frame_of ''s'' 0 [3]].
             Marshal frame_json f \<noteq> None \<and> SessionID f = ''s''"
    by (simp add: Marshal_frame_json frame_of_def)
  have i: "sorted_list_of_set (Index ` set [frame_of ''s'' 1 [1], frame_of ''s'' 0 [2],
             frame_of ''s'' 0 [3]]) = [0, 1]"
    "sort_key Index [frame_of ''s'' 1 [1], frame_of ''s'' 0 [2], frame_of ''s'' 0 [3]]
       = [frame_of ''s'' 0 [2], frame_of ''s'' 0 [3], frame_of ''s'' 1 [1]]"
    by (simp_all add: frame_of_def)
  have e: "RedisStorage_ListFrames backwards frame_json
     (snd (run_ops (RedisStorage_op backwards frame_json)
             [PutFrame (frame_of ''s'' 1 [1]), PutFrame (frame_of ''s'' 0 [2]),
              PutFrame (frame_of ''s'' 0 [3])]
             (emptyRedisStorage ''app:''))) ''s''
     = Inr [frame_of ''s'' 0 [2], frame_of ''s'' 0 [3], frame_of ''s'' 1 [1]]"
    using RedisStorage_ListFrames_short[OF json_ok_frame_json h, of backwards "''app:''"] i(2)
    by simp
  have t: "(\<exists>xs. MemoryStorage_ListFrames backwards
            (snd (run_ops (MemoryStorage_op backwards)
                    [PutFrame (frame_of ''s'' 1 [1]), PutFrame (frame_of ''s'' 0 [2]),
                     PutFrame (frame_of ''s'' 0 [3])]
                    NewMemoryStorage)) ''s'' = Inr xs \<and>
         map Index xs = [0, 1]) \<and>
   (\<exists>ys. RedisStorage_ListFrames backwards frame_json
            (snd (run_ops (RedisStorage_op backwards frame_json)
                    [PutFrame (frame_of ''s'' 1 [1]), PutFrame (frame_of ''s'' 0 [2]),
                     PutFrame (frame_of ''s'' 0 [3])]
                    (emptyRedisStorage ''app:''))) ''s'' = Inr ys \<and>
         sorted (map Index ys) \<and>
         mset ys = mset [frame_of ''s'' 1 [1], frame_of ''s'' 0 [2], frame_of ''s'' 0 [3]])"
    using ListFrames_after_puts[OF json_ok_frame_json h _ platform_ok_backwards, of "''app:''"] i(1)
    by auto
  show ?thesis
    using t e json_ok_frame_json Marshal_frame_json platform_ok_backwards backwards_visit(3)
    by simp
qed

section \<open>Frame store: where the two backends agree\<close>

lemma RedisStorage_DeleteSession_effect:
  assumes "redis_inv s" "sid \<in> active s"
  shows "(case RedisStorage_DeleteSession s sid of
            (e, s') \<Rightarrow> e = None \<and> redis_inv s' \<and> active s' = active s - {sid} \<and>
              (\<forall>x. stored s' x = (if x = sid then [] else stored s x)))"
  using assms
  by (auto simp: redis_inv_def RedisStorage_DeleteSession_def SIsMember_def Exec_def
        active_def stored_def sessionKey_def frameKey_def
      split: option.splits rvalue.splits prod.splits if_splits)

lemma RedisStorage_DeleteSession_absent:
  assumes "redis_inv s" "sid \<notin> active s"
  shows "RedisStorage_DeleteSession s sid = (Some (SessionNotFound sid), s)"
  using assms
  by (auto simp: redis_inv_def RedisStorage_DeleteSession_def SIsMember_def active_def
      split: option.splits rvalue.splits)

lemma map_of_Index_find:
  "map_of (map (\<lambda>f. (Index f, f)) fs) i = find (\<lambda>f. Index f = i) fs"
  by (induction fs) auto

lemma map_of_Index_snoc:
  assumes "map_of (map (\<lambda>f. (Index f, f)) fs) (Index f) = None"
  shows "map_of (map (\<lambda>f. (Index f, f)) (fs @ [f]))
           = (map_of (map (\<lambda>f. (Index f, f)) fs))(Index f \<mapsto> f)"
proof (rule ext)
  fix i
  show "map_of (map (\<lambda>f. (Index f, f)) (fs @ [f])) i
          = ((map_of (map (\<lambda>f. (Index f, f)) fs))(Index f \<mapsto> f)) i"
    using assms by (cases "i = Index f") (auto simp: map_add_def split: option.splits)
qed

lemma Index_notin_if_unmapped:
  "map_of (map (\<lambda>f. (Index f, f)) fs) i = None \<Longrightarrow> i \<notin> Index ` set fs"
  by (induction fs) (auto split: if_splits)

lemma sorted_by_Index_unique:
  assumes "platform_ok env" "distinct (map Index fs)"
    "m = map_of (map (\<lambda>f. (Index f, f)) fs)"
  shows "sort_Slice env (range_values (range_indices env) m) = sort_Slice env fs"
proof -
  define ys where "ys = range_values (range_indices env) m"
  have v: "visits (range_indices env)"
    by (rule platform_ok_visits(2)[OF assms(1)])
  have fin: "finite (dom m)"
    unfolding assms(3) by (rule finite_dom_map_of)
  have key: "\<And>i f. m i = Some f \<Longrightarrow> Index f = i"
    unfolding assms(3) by (auto dest: map_of_SomeD)
  have "distinct (map fst (map (\<lambda>f. (Index f, f)) fs))"
    using assms(2) by (simp add: comp_def)
  then have "ran m = snd ` set (map (\<lambda>f. (Index f, f)) fs)"
    unfolding assms(3) by (rule ran_distinct)
  then have ran: "ran m = set fs"
    by (simp add: image_image)
  have ys: "map Index ys = range_indices env (dom m)" "set ys = set fs"
    using range_values_keyed[OF v fin key] ran by (simp_all add: ys_def)
  have "distinct (map Index ys)"
    using ys(1) visits_distinct[OF v] by simp
  then have "distinct ys"
    by (simp add: distinct_map)
  moreover have "distinct fs"
    using assms(2) by (simp add: distinct_map)
  ultimately have p: "mset ys = mset fs"
    using ys(2) by (simp add: set_eq_iff_mset_eq_distinct)
  have "sorted (map Index (sort_Slice env ys))" "mset (sort_Slice env ys) = mset fs"
    using sort_Slice_sorted_perm[OF assms(1), of ys] p by simp_all
  then have "sort_Slice env ys = sort_key Index fs"
    using assms(2) by (intro sorted_perm_unique)
  then show ?thesis
    using sort_Slice_distinct[OF assms(1,2)] by (simp add: ys_def)
qed

lemma same_content_empty: "same_content js NewMemoryStorage (emptyRedisStorage p)"
  by (simp add: same_content_def sessions_inv_New redis_inv_empty) (simp add: NewMemoryStorage_def)

lemma same_content_PutFrame:
  assumes ok: "json_ok js" and sc: "same_content js m r" and j: "Marshal js f = Some j"
    and fresh: "\<forall>g. MemoryStorage_GetFrame m (SessionID f) (Index f) \<noteq> Inr g"
  shows "fst (MemoryStorage_PutFrame m f) = fst (RedisStorage_PutFrame js r f) \<and>
         same_content js (snd (MemoryStorage_PutFrame m f)) (snd (RedisStorage_PutFrame js r f))"
proof -
  define sid where "sid = SessionID f"
  define m' where "m' = snd (MemoryStorage_PutFrame m f)"
  obtain e r' where p: "RedisStorage_PutFrame js r f = (e, r')"
    by (cases "RedisStorage_PutFrame js r f")
  have inv: "sessions_inv m" "redis_inv r" "finite (sessions m)" "active r = sessions m"
    and none: "\<And>x. frames m x = None \<Longrightarrow> stored r x = []"
    and some: "\<And>x mf. frames m x = Some mf \<Longrightarrow>
        \<exists>fs. stored r x = map (encode js) fs \<and> (\<forall>f \<in> set fs. Marshal js f \<noteq> None) \<and>
             distinct (map Index fs) \<and> mf = map_of (map (\<lambda>f. (Index f, f)) fs)"
    using sc by (simp_all add: same_content_def)
  have re: "e = None" "redis_inv r'" "active r' = insert sid (active r)"
    "\<And>x. stored r' x = (if x = sid then stored r x @ [j] else stored r x)"
    using RedisStorage_PutFrame_effect[OF inv(2) j] p by (simp_all add: sid_def)
  have me: "sessions_inv m'" "sessions m' = insert sid (sessions m)"
    "frames m' = (frames m)(sid \<mapsto>
        (case frames m sid of None \<Rightarrow> Map.empty | Some mf \<Rightarrow> mf)(Index f \<mapsto> f))"
    using sessions_inv_PutFrame[OF inv(1), of f] sessions_PutFrame[OF inv(1), of f]
      frames_MemoryStorage_PutFrame[of m f]
    by (simp_all add: m'_def sid_def)
  have enc: "encode js f = j"
    using j by (simp add: encode_def)
  have new: "\<exists>fs. stored r' sid = map (encode js) fs \<and> (\<forall>f \<in> set fs. Marshal js f \<noteq> None) \<and>
      distinct (map Index fs) \<and>
      (case frames m sid of None \<Rightarrow> Map.empty | Some mf \<Rightarrow> mf)(Index f \<mapsto> f)
        = map_of (map (\<lambda>f. (Index f, f)) fs)"
  proof (cases "frames m sid")
    case None
    then have "stored r' sid = map (encode js) [f]"
      using re(4)[of sid] none[of sid] enc by simp
    then show ?thesis
      using None j by (intro exI[of _ "[f]"]) simp
  next
    case (Some mf)
    obtain fs where fs: "stored r sid = map (encode js) fs" "\<forall>f \<in> set fs. Marshal js f \<noteq> None"
      "distinct (map Index fs)" "mf = map_of (map (\<lambda>f. (Index f, f)) fs)"
      using some[OF Some] by blast
    have un: "map_of (map (\<lambda>f. (Index f, f)) fs) (Index f) = None"
      using fresh Some fs(4)
      by (cases "mf (Index f)") (auto simp: MemoryStorage_GetFrame_def sid_def)
    have "stored r' sid = map (encode js) (fs @ [f])"
      using re(4)[of sid] fs(1) enc by simp
    moreover have "distinct (map Index (fs @ [f]))"
      using fs(3) Index_notin_if_unmapped[OF un] by simp
    moreover have "\<forall>g \<in> set (fs @ [f]). Marshal js g \<noteq> None"
      using fs(2) j by simp
    moreover have "mf(Index f \<mapsto> f) = map_of (map (\<lambda>f. (Index f, f)) (fs @ [f]))"
      using map_of_Index_snoc[OF un] fs(4) by simp
    ultimately show ?thesis
      using Some by (intro exI[of _ "fs @ [f]"]) simp
  qed
  have "same_content js m' r'"
    unfolding same_content_def
  proof (intro conjI allI impI)
    show "sessions_inv m'" "redis_inv r'"
      by (rule me(1), rule re(2))
    show "finite (sessions m')"
      using inv(3) me(2) by simp
    show "active r' = sessions m'"
      using re(3) me(2) inv(4) by simp
  next
    fix x
    assume "frames m' x = None"
    then have "x \<noteq> sid" "frames m x = None"
      by (auto simp: me(3) split: if_splits)
    then show "stored r' x = []"
      using re(4)[of x] none[of x] by simp
  next
    fix x mf
    assume a: "frames m' x = Some mf"
    show "\<exists>fs. stored r' x = map (encode js) fs \<and> (\<forall>f \<in> set fs. Marshal js f \<noteq> None) \<and>
               distinct (map Index fs) \<and> mf = map_of (map (\<lambda>f. (Index f, f)) fs)"
    proof (cases "x = sid")
      case True
      then show ?thesis
        using a new by (simp add: me(3))
    next
      case False
      then show ?thesis
        using a some[of x mf] re(4)[of x] by (simp add: me(3))
    qed
  qed
  then show ?thesis
    using p re(1) by (simp add: m'_def fst_MemoryStorage_PutFrame)
qed


lemma same_content_reads:
  assumes ok: "json_ok js" and sc: "same_content js m r" and pf: "platform_ok env"
  shows "MemoryStorage_GetFrame m sid i = RedisStorage_GetFrame js r sid i"
    and "MemoryStorage_ListFrames env m sid = RedisStorage_ListFrames env js r sid"
    and "MemoryStorage_ListSessions env m = RedisStorage_ListSessions env r"
proof -
  have inv: "sessions_inv m" "redis_inv r" "finite (sessions m)" "active r = sessions m"
    and some: "\<And>x mf. frames m x = Some mf \<Longrightarrow>
        \<exists>fs. stored r x = map (encode js) fs \<and> (\<forall>f \<in> set fs. Marshal js f \<noteq> None) \<and>
             distinct (map Index fs) \<and> mf = map_of (map (\<lambda>f. (Index f, f)) fs)"
    using sc by (simp_all add: same_content_def)
  have act: "sid \<in> active r \<longleftrightarrow> frames m sid \<noteq> None"
    using inv(1,4) by (simp add: sessions_inv_def)
  show "MemoryStorage_ListSessions env m = RedisStorage_ListSessions env r"
    using inv sort_visit[OF platform_ok_visits(1)[OF pf] inv(3)]
      RedisStorage_ListSessions_active[OF pf inv(2)]
    by (simp add: MemoryStorage_ListSessions_def)
  show "MemoryStorage_GetFrame m sid i = RedisStorage_GetFrame js r sid i"
  proof (cases "frames m sid")
    case None
    then show ?thesis
      using act by (simp add: MemoryStorage_GetFrame_def RedisStorage_GetFrame_stored[OF inv(2)])
  next
    case (Some mf)
    obtain fs where fs: "stored r sid = map (encode js) fs" "\<forall>f \<in> set fs. Marshal js f \<noteq> None"
      "mf = map_of (map (\<lambda>f. (Index f, f)) fs)"
      using some[OF Some] by blast
    show ?thesis
      using Some act fs(1,3) find_frame_encode[OF ok fs(2), of sid i]
      by (simp add: MemoryStorage_GetFrame_def RedisStorage_GetFrame_stored[OF inv(2)]
          map_of_Index_find split: option.splits)
  qed
  show "MemoryStorage_ListFrames env m sid = RedisStorage_ListFrames env js r sid"
  proof (cases "frames m sid")
    case None
    then show ?thesis
      using act by (simp add: MemoryStorage_ListFrames_def RedisStorage_ListFrames_stored[OF inv(2)])
  next
    case (Some mf)
    obtain fs where fs: "stored r sid = map (encode js) fs" "\<forall>f \<in> set fs. Marshal js f \<noteq> None"
      "distinct (map Index fs)" "mf = map_of (map (\<lambda>f. (Index f, f)) fs)"
      using some[OF Some] by blast
    have "sort_Slice env (range_values (range_indices env) mf) = sort_Slice env fs"
      by (rule sorted_by_Index_unique[OF pf fs(3,4)])
    then show ?thesis
      using Some act fs(1) decode_frames_encode[OF ok fs(2)]
      by (simp add: MemoryStorage_ListFrames_def RedisStorage_ListFrames_stored[OF inv(2)])
  qed
qed

lemma same_content_DeleteSession:
  assumes sc: "same_content js m r"
  shows "fst (MemoryStorage_DeleteSession m sid) = fst (RedisStorage_DeleteSession r sid) \<and>
         same_content js (snd (MemoryStorage_DeleteSession m sid))
           (snd (RedisStorage_DeleteSession r sid))"
proof (cases "frames m sid")
  case None
  have "sid \<notin> active r" "redis_inv r"
    using sc None by (simp_all add: same_content_def sessions_inv_def)
  then show ?thesis
    using None sc RedisStorage_DeleteSession_absent[of r sid]
    by (simp add: MemoryStorage_DeleteSession_def)
next
  case (Some mf)
  have inv: "sessions_inv m" "redis_inv r" "finite (sessions m)" "active r = sessions m"
    and none: "\<And>x. frames m x = None \<Longrightarrow> stored r x = []"
    and some: "\<And>x mf. frames m x = Some mf \<Longrightarrow>
        \<exists>fs. stored r x = map (encode js) fs \<and> (\<forall>f \<in> set fs. Marshal js f \<noteq> None) \<and>
             distinct (map Index fs) \<and> mf = map_of (map (\<lambda>f. (Index f, f)) fs)"
    using sc by (simp_all add: same_content_def)
  have act: "sid \<in> active r"
    using inv(1,4) Some by (simp add: sessions_inv_def)
  obtain e r' where d: "RedisStorage_DeleteSession r sid = (e, r')"
    by (cases "RedisStorage_DeleteSession r sid")
  have re: "e = None" "redis_inv r'" "active r' = active r - {sid}"
    "\<And>x. stored r' x = (if x = sid then [] else stored r x)"
    using RedisStorage_DeleteSession_effect[OF inv(2) act] d by simp_all
  define m' where "m' = m\<lparr>frames := (frames m)(sid := None), sessions := sessions m - {sid}\<rparr>"
  have md: "MemoryStorage_DeleteSession m sid = (None, m')"
    using Some by (simp add: MemoryStorage_DeleteSession_def m'_def)
  have "same_content js m' r'"
    unfolding same_content_def
  proof (intro conjI allI impI)
    show "sessions_inv m'"
      using sessions_inv_DeleteSession[OF inv(1), of sid] md by simp
    show "redis_inv r'"
      by (rule re(2))
    show "finite (sessions m')" "active r' = sessions m'"
      using inv(3,4) re(3) by (simp_all add: m'_def)
  next
    fix x
    assume "frames m' x = None"
    then have "x = sid \<or> frames m x = None"
      by (auto simp: m'_def split: if_splits)
    then show "stored r' x = []"
      using re(4)[of x] none[of x] by auto
  next
    fix x mf
    assume "frames m' x = Some mf"
    then have "x \<noteq> sid" "frames m x = Some mf"
      by (auto simp: m'_def split: if_splits)
    then show "\<exists>fs. stored r' x = map (encode js) fs \<and> (\<forall>f \<in> set fs. Marshal js f \<noteq> None) \<and>
               distinct (map Index fs) \<and> mf = map_of (map (\<lambda>f. (Index f, f)) fs)"
      using some[of x mf] re(4)[of x] by simp
  qed
  then show ?thesis
    using d md re(1) by simp
qed

lemma same_content_op:
  assumes ok: "json_ok js" and sc: "same_content js m r" and fresh: "fresh_puts [x] m"
    and ms: "\<forall>f. x = PutFrame f \<longrightarrow> Marshal js f \<noteq> None" and pf: "platform_ok env"
  shows "fst (MemoryStorage_op env x m) = fst (RedisStorage_op env js x r) \<and>
         same_content js (snd (MemoryStorage_op env x m)) (snd (RedisStorage_op env js x r))"
proof (cases x)
  case (PutFrame f)
  obtain j where j: "Marshal js f = Some j"
    using ms PutFrame by auto
  have "\<forall>g. MemoryStorage_GetFrame m (SessionID f) (Index f) \<noteq> Inr g"
    using fresh PutFrame by (auto split: sum.splits)
  from same_content_PutFrame[OF ok sc j this] show ?thesis
    using PutFrame by (auto split: prod.splits)
next
  case (GetFrame sid i)
  then show ?thesis
    using sc same_content_reads(1)[OF ok sc pf] by simp
next
  case (ListFrames sid)
  then show ?thesis
    using sc same_content_reads(2)[OF ok sc pf] by simp
next
  case ListSessions
  then show ?thesis
    using sc same_content_reads(3)[OF ok sc pf] by simp
next
  case (DeleteSession sid)
  then show ?thesis
    using same_content_DeleteSession[OF sc, of sid] by (auto split: prod.splits)
qed

lemma same_content_run:
  assumes ok: "json_ok js" and pf: "platform_ok env"
  shows "same_content js m r \<Longrightarrow> fresh_puts ops m \<Longrightarrow>
         \<forall>f. PutFrame f \<in> set ops \<longrightarrow> Marshal js f \<noteq> None \<Longrightarrow>
         fst (run_ops (MemoryStorage_op env) ops m) = fst (run_ops (RedisStorage_op env js) ops r)"
proof (induction ops arbitrary: m r)
  case Nil
  then show ?case by simp
next
  case (Cons x ops)
  have f1: "fresh_puts [x] m"
    using Cons.prems(2) by (cases x) simp_all
  have f2: "fresh_puts ops (snd (MemoryStorage_op env x m))"
    using Cons.prems(2) by (cases x) (auto split: prod.splits)
  have m1: "\<forall>f. x = PutFrame f \<longrightarrow> Marshal js f \<noteq> None"
    and m2: "\<forall>f. PutFrame f \<in> set ops \<longrightarrow> Marshal js f \<noteq> None"
    using Cons.prems(3) by auto
  have st: "fst (MemoryStorage_op env x m) = fst (RedisStorage_op env js x r)"
    "same_content js (snd (MemoryStorage_op env x m)) (snd (RedisStorage_op env js x r))"
    using same_content_op[OF ok Cons.prems(1) f1 m1 pf] by simp_all
  have "fst (run_ops (MemoryStorage_op env) ops (snd (MemoryStorage_op env x m)))
          = fst (run_ops (RedisStorage_op env js) ops (snd (RedisStorage_op env js x r)))"
    by (rule Cons.IH[OF st(2) f2 m2])
  then show ?case
    using st(1) by (auto split: prod.splits)
qed

text \<open>
  The extent of the agreement: from the empty state the two backends return the same
  results, on any platform, for every sequence of operations that Puts no frame twice,
  when the frames serialise and read back. For the backends to differ, a sequence needs a second Put for
  a session and index that hold a frame.
\<close>

lemma backends_agree_without_second_put:
  assumes "json_ok js" "\<forall>f. PutFrame f \<in> set ops \<longrightarrow> Marshal js f \<noteq> None"
    "fresh_puts ops NewMemoryStorage" "platform_ok env"
  shows "fst (run_ops (MemoryStorage_op env) ops NewMemoryStorage)
           = fst (run_ops (RedisStorage_op env js) ops (emptyRedisStorage p))"
  using same_content_run[OF assms(1,4) same_content_empty assms(3,2)] .

lemma backends_agree_example:
  "fst (run_ops (MemoryStorage_op backwards)
          [PutFrame (frame_of ''s'' 1 [1]), PutFrame (frame_of ''s'' 0 [2]), ListFrames ''s'',
           DeleteSession ''s'', PutFrame (frame_of ''s'' 0 [3]), GetFrame ''s'' 0, ListSessions]
          NewMemoryStorage)
   = fst (run_ops (RedisStorage_op backwards frame_json)
          [PutFrame (frame_of ''s'' 1 [1]), PutFrame (frame_of ''s'' 0 [2]), ListFrames ''s'',
           DeleteSession ''s'', PutFrame (frame_of ''s'' 0 [3]), GetFrame ''s'' 0, ListSessions]
          (emptyRedisStorage ''app:''))"
proof (rule backends_agree_without_second_put[OF json_ok_frame_json _ _ platform_ok_backwards])
  show "\<forall>f. PutFrame f \<in> set [PutFrame (frame_of ''s'' 1 [1]), PutFrame (frame_of ''s'' 0 [2]),
           ListFrames ''s'', DeleteSession ''s'', PutFrame (frame_of ''s'' 0 [3]),
           GetFrame ''s'' 0, ListSessions] \<longrightarrow> Marshal frame_json f \<noteq> None"
    by (simp add: Marshal_frame_json)
  show "fresh_puts [PutFrame (frame_of ''s'' 1 [1]), PutFrame (frame_of ''s'' 0 [2]),
           ListFrames ''s'', DeleteSession ''s'', PutFrame (frame_of ''s'' 0 [3]),
           GetFrame ''s'' 0, ListSessions] NewMemoryStorage"
    by (simp add: MemoryStorage_PutFrame_def MemoryStorage_GetFrame_def
        MemoryStorage_DeleteSession_def NewMemoryStorage_def frame_of_def Let_def)
qed

end
